theory Spec2Isabelle
  imports Complex_Main
begin

section \<open>Python values and sequence operations used by the event classifier\<close>

text \<open>
  The exceptions that the modelled code can raise. Every raise of the source is an
  \<open>Inl\<close> result of the model.
\<close>

datatype py_error = IndexError | TypeError | ValueError | MemoryError | UnboundLocalError

text \<open>
  Position of index \<open>i\<close> in a sequence of length \<open>n\<close>: a negative index counts from
  the end, as in Python and numpy.
\<close>

definition py_pos :: "nat \<Rightarrow> int \<Rightarrow> int" where
  "py_pos n i = (if i < 0 then int n + i else i)"

definition py_index :: "'a list \<Rightarrow> int \<Rightarrow> py_error + 'a" where
  "py_index xs i =
     (if 0 \<le> py_pos (length xs) i \<and> py_pos (length xs) i < int (length xs)
      then Inr (xs ! nat (py_pos (length xs) i))
      else Inl IndexError)"

text \<open>
  Bound of a slice \<open>a[lo:hi]\<close>: negative bounds count from the end, and every bound is
  clipped to the length of the sequence.
\<close>

definition py_bound :: "nat \<Rightarrow> int \<Rightarrow> nat" where
  "py_bound n i = (if i < 0 then nat (max 0 (int n + i)) else nat (min (int n) i))"

definition py_slice :: "'a list \<Rightarrow> int \<Rightarrow> int \<Rightarrow> 'a list" where
  "py_slice xs lo hi = drop (py_bound (length xs) lo) (take (py_bound (length xs) hi) xs)"

section \<open>The spatial window locator\<close>

record spatial_window =
  w_top :: int
  w_bottom :: int
  w_left :: int
  w_right :: int
  w_center :: "int \<times> int"
  w_origin :: "int \<times> int"

text \<open>
  \<open>EventGrid.get_spatial_window\<close>: \<open>center_origin\<close> is the three-way case
  distinction the source makes once for \<open>y\<close> and once for \<open>x\<close>.
\<close>

definition center_origin :: "nat \<Rightarrow> int \<Rightarrow> int \<Rightarrow> int \<times> int" where
  "center_origin spatial_param y ydim =
     (let tps = map int [0..<spatial_param];
          y_edges_1 = map (\<lambda>t. 0 + t) tps;
          y_edges_2 = map (\<lambda>t. ydim - t) tps
      in if y \<in> set y_edges_1 then (y, 0)
         else if y \<in> set y_edges_2 then (y - ydim, y - int spatial_param)
         else (int spatial_param, y - int spatial_param))"

definition get_spatial_window :: "nat \<Rightarrow> int \<Rightarrow> int \<Rightarrow> int \<times> int \<Rightarrow> spatial_window" where
  "get_spatial_window spatial_param y x array_dims =
     (let top = max 0 (y - int spatial_param);
          bottom = min (fst array_dims) (y + int spatial_param);
          left = max 0 (x - int spatial_param);
          right = min (snd array_dims) (x + int spatial_param);
          ydim = fst array_dims;
          xdim = snd array_dims;
          (ycenter, oy) = center_origin spatial_param y ydim;
          (xcenter, ox) = center_origin spatial_param x xdim
      in \<lparr>w_top = top, w_bottom = bottom, w_left = left, w_right = right,
          w_center = (ycenter, xcenter), w_origin = (oy, ox)\<rparr>)"

text \<open>
  The window the classifier pulls in: \<open>arr[:, top:bottom+1, left:right+1]\<close>, and the
  time series at the window position \<open>[cy, cx]\<close>: \<open>window[:, cy, cx]\<close>. An index out
  of range raises. (For an array without time steps the source checks the index all the
  same; classification never gets there, since the active-cell extractor raises first.)
\<close>

definition extract_window :: "int list list list \<Rightarrow> spatial_window \<Rightarrow> int list list list" where
  "extract_window arr w =
     map (\<lambda>plane. map (\<lambda>row. py_slice row (w_left w) (w_right w + 1))
                      (py_slice plane (w_top w) (w_bottom w + 1))) arr"

fun center_series :: "int list list list \<Rightarrow> int \<Rightarrow> int \<Rightarrow> py_error + int list" where
  "center_series [] cy cx = Inr []"
| "center_series (plane # rest) cy cx =
     (case py_index plane cy of
        Inl e \<Rightarrow> Inl e
      | Inr row \<Rightarrow>
          (case py_index row cx of
             Inl e \<Rightarrow> Inl e
           | Inr v \<Rightarrow>
               (case center_series rest cy cx of
                  Inl e \<Rightarrow> Inl e
                | Inr vs \<Rightarrow> Inr (v # vs))))"

definition grid_shape :: "int list list list \<Rightarrow> int \<Rightarrow> int \<Rightarrow> bool" where
  "grid_shape arr ny nx \<longleftrightarrow>
     (\<forall>plane \<in> set arr. length plane = nat ny \<and> (\<forall>row \<in> set plane. length row = nat nx))"

section \<open>The burn grid and the active-cell extractor\<close>

text \<open>
  The input of one tile: \<open>input_array\<close> indexed \<open>[time][y][x]\<close>, its spatial shape and
  the coordinate vectors \<open>coordinates["y"]\<close> and \<open>coordinates["x"]\<close>. Cell values are
  day numbers, modelled as unbounded integers; coordinates are modelled as exact reals.
\<close>

record burn_grid =
  bg_values :: "int list list list"
  bg_ny :: nat
  bg_nx :: nat
  bg_ys :: "real list"
  bg_xs :: "real list"

definition wf_grid :: "burn_grid \<Rightarrow> bool" where
  "wf_grid g \<longleftrightarrow>
     grid_shape (bg_values g) (int (bg_ny g)) (int (bg_nx g)) \<and>
     length (bg_ys g) = bg_ny g \<and> length (bg_xs g) = bg_nx g"

text \<open>
  \<open>input_array.max(dim="time")\<close>: the planes are reduced with the elementwise maximum;
  the reduction of an empty time axis raises.
\<close>

definition plane_max :: "int list list \<Rightarrow> int list list \<Rightarrow> int list list" where
  "plane_max m q = map (\<lambda>(r, s). map (\<lambda>(a, b). max a b) (zip r s)) (zip m q)"

definition time_max :: "int list list list \<Rightarrow> py_error + int list list" where
  "time_max arr = (case arr of [] \<Rightarrow> Inl ValueError | p # ps \<Rightarrow> Inr (foldl plane_max p ps))"

text \<open>\<open>np.where(mask > 0)\<close> paired up: the positions of the positive cells, row by row.\<close>

definition where_positive :: "int list list \<Rightarrow> (int \<times> int) list" where
  "where_positive mx =
     concat (map (\<lambda>(y, row). map (\<lambda>(x, v). (int y, int x))
                                (filter (\<lambda>(x, v). 0 < v) (enumerate 0 row)))
                 (enumerate 0 mx))"

definition get_availables :: "burn_grid \<Rightarrow> py_error + (int \<times> int) list" where
  "get_availables g =
     (case time_max (bg_values g) of
        Inl e \<Rightarrow> Inl e
      | Inr mx \<Rightarrow> Inr (where_positive mx))"

section \<open>Event perimeters and the event grid\<close>

text \<open>
  A point is the tuple \<open>(y, x, day)\<close>. The \<open>coords\<close> list of a perimeter holds points
  while the perimeter is live; merging replaces it by \<open>[merge_notice, new_pts]\<close>, a
  string followed by a list, so the entries of \<open>coords\<close> are Python values of three
  kinds. The event grid is a dictionary keyed by such values.
\<close>

type_synonym point = "real \<times> real \<times> int"

datatype pyval = Pt point | Str string | Lst "pyval list"

record perimeter =
  event_id :: int
  merge_id :: "int option"
  coords :: "pyval list"

type_synonym event_grid = "pyval \<Rightarrow> int option"

definition add_coordinates :: "pyval list \<Rightarrow> pyval list \<Rightarrow> pyval list" where
  "add_coordinates cs coord_list = cs @ coord_list"

definition new_perimeter :: "int \<Rightarrow> pyval list \<Rightarrow> perimeter" where
  "new_perimeter eid coord_list =
     \<lparr>event_id = eid, merge_id = None, coords = add_coordinates [] coord_list\<rparr>"

text \<open>A list is not hashable: using one as a dictionary key raises \<open>TypeError\<close>.\<close>

fun hashable :: "pyval \<Rightarrow> bool" where
  "hashable (Lst _) = False"
| "hashable _ = True"

fun grid_put_all :: "event_grid \<Rightarrow> pyval list \<Rightarrow> int \<Rightarrow> py_error + event_grid" where
  "grid_put_all eg [] eid = Inr eg"
| "grid_put_all eg (p # ps) eid =
     (if hashable p then grid_put_all (eg(p \<mapsto> eid)) ps eid else Inl TypeError)"

definition add_event_grid :: "event_grid \<Rightarrow> int \<Rightarrow> pyval list \<Rightarrow> py_error + event_grid" where
  "add_event_grid eg eid new_pts = grid_put_all eg new_pts eid"

text \<open>The decimal text of an integer, as \<open>"{}".format\<close> prints it.\<close>

function show_nat :: "nat \<Rightarrow> string" where
  "show_nat n =
     (if n < 10 then [''0123456789'' ! n]
      else show_nat (n div 10) @ [''0123456789'' ! (n mod 10)])"
  by pat_completeness auto
termination
  by (relation "measure (\<lambda>n. n)") auto

declare show_nat.simps [simp del]

definition show_int :: "int \<Rightarrow> string" where
  "show_int i = (if i < 0 then CHR ''-'' # show_nat (nat (- i)) else show_nat (nat i))"

text \<open>
  The state of one tile's classification: the fields \<open>event_grid\<close> and
  \<open>next_event_id\<close> of the \<open>EventGrid\<close> object and the list \<open>perimeters\<close> that
  \<open>get_event_perimeters\<close> builds.
\<close>

record cls_state =
  event_grid :: event_grid
  next_event_id :: int
  perimeters :: "perimeter list"

text \<open>
  \<open>EventGrid.merge_perimeters\<close>. The steps are those of the source, in its order: the
  merge id is set, the grid entry of every item of the obsolete \<open>coords\<close> is
  rewritten, the items are appended to the surviving perimeter, and the obsolete
  \<open>coords\<close> become the notice. When both ids address the same perimeter and its list
  is not empty, the source appends to the list it is iterating and never finishes; the
  model returns \<open>MemoryError\<close> there.
\<close>

definition merge_perimeters :: "cls_state \<Rightarrow> int \<Rightarrow> int \<Rightarrow> py_error + cls_state" where
  "merge_perimeters st eid obsolete_id =
     (let ps = perimeters st in
      case py_index ps (obsolete_id - 1) of
        Inl e \<Rightarrow> Inl e
      | Inr ob \<Rightarrow>
          (let iob = nat (py_pos (length ps) (obsolete_id - 1));
               ps1 = ps[iob := ob\<lparr>merge_id := Some eid\<rparr>];
               new_pts = coords ob
           in case grid_put_all (event_grid st) new_pts eid of
                Inl e \<Rightarrow> Inl e
              | Inr eg \<Rightarrow>
                  (case py_index ps1 (eid - 1) of
                     Inl e \<Rightarrow> Inl e
                   | Inr sv \<Rightarrow>
                       (let isv = nat (py_pos (length ps) (eid - 1)) in
                        if isv = iob \<and> new_pts \<noteq> [] then Inl MemoryError
                        else
                          (let ps2 = ps1[isv := sv\<lparr>coords := add_coordinates (coords sv) new_pts\<rparr>];
                               merge_notice = ''Merged with event '' @ show_int eid
                           in Inr (st\<lparr>event_grid := eg,
                                      perimeters := ps2[iob := (ps2 ! iob)
                                        \<lparr>coords := [Str merge_notice, Lst new_pts]\<rparr>]\<rparr>))))))"

section \<open>The event assigner\<close>

text \<open>
  \<open>np.where(diff <= temporal_param)\<close> on the window, with the values at the found
  positions: the window-local \<open>(y, x)\<close> and the value, in the order time, y, x.
\<close>

definition where_close :: "int list list list \<Rightarrow> int \<Rightarrow> int \<Rightarrow> (nat \<times> nat \<times> int) list" where
  "where_close window burn temporal_param =
     concat (map (\<lambda>plane.
       concat (map (\<lambda>(yl, row).
         map (\<lambda>(xl, v). (yl, xl, v))
           (filter (\<lambda>(xl, v). \<bar>burn - v\<bar> \<le> temporal_param) (enumerate 0 row)))
         (enumerate 0 plane))) window)"

fun lookup_all :: "'a list \<Rightarrow> int list \<Rightarrow> py_error + 'a list" where
  "lookup_all cs [] = Inr []"
| "lookup_all cs (i # is) =
     (case py_index cs i of
        Inl e \<Rightarrow> Inl e
      | Inr c \<Rightarrow> (case lookup_all cs is of Inl e \<Rightarrow> Inl e | Inr rest \<Rightarrow> Inr (c # rest)))"

definition candidate_points ::
  "burn_grid \<Rightarrow> int list list list \<Rightarrow> int \<times> int \<Rightarrow> int \<Rightarrow> int \<Rightarrow> py_error + point list" where
  "candidate_points g window origin burn temporal_param =
     (let val_locs = where_close window burn temporal_param;
          vals = map (\<lambda>(yl, xl, v). v) val_locs;
          ys = map (\<lambda>(yl, xl, v). fst origin + int yl) val_locs;
          xs = map (\<lambda>(yl, xl, v). snd origin + int xl) val_locs
      in case lookup_all (bg_ys g) ys of
           Inl e \<Rightarrow> Inl e
         | Inr ycs \<Rightarrow>
             (case lookup_all (bg_xs g) xs of
                Inl e \<Rightarrow> Inl e
              | Inr xcs \<Rightarrow> Inr (zip ycs (zip xcs vals))))"

text \<open>
  The loop over the candidate points: the ids of the points that are in the event grid,
  each once and in the order found, and the points that are not.
\<close>

fun partition_pts :: "event_grid \<Rightarrow> point list \<Rightarrow> int list \<Rightarrow> point list \<Rightarrow> int list \<times> point list" where
  "partition_pts eg [] curr_event_ids new_pts = (curr_event_ids, new_pts)"
| "partition_pts eg (curr_pt # rest) curr_event_ids new_pts =
     (case eg (Pt curr_pt) of
        Some e \<Rightarrow>
          partition_pts eg rest
            (if e \<in> set curr_event_ids then curr_event_ids else curr_event_ids @ [e]) new_pts
      | None \<Rightarrow> partition_pts eg rest curr_event_ids (new_pts @ [curr_pt]))"

text \<open>The decision for one detection: a new event, an extension, or a merge.\<close>

definition assign_burn :: "cls_state \<Rightarrow> point list \<Rightarrow> py_error + cls_state" where
  "assign_burn st cands =
     (let (curr_event_ids, new_pts) = partition_pts (event_grid st) cands [] [] in
      if length curr_event_ids = 0 then
        (let perimeter = new_perimeter (next_event_id st) (map Pt new_pts) in
         case add_event_grid (event_grid st) (next_event_id st) (map Pt new_pts) of
           Inl e \<Rightarrow> Inl e
         | Inr eg \<Rightarrow>
             Inr \<lparr>event_grid = eg, next_event_id = next_event_id st + 1,
                  perimeters = perimeters st @ [perimeter]\<rparr>)
      else if length curr_event_ids = 1 then
        (let eid = curr_event_ids ! 0 in
         if new_pts \<noteq> [] then
           (case py_index (perimeters st) (eid - 1) of
              Inl e \<Rightarrow> Inl e
            | Inr p \<Rightarrow>
                (case add_event_grid (event_grid st) eid (map Pt new_pts) of
                   Inl e \<Rightarrow> Inl e
                 | Inr eg \<Rightarrow>
                     Inr (st\<lparr>event_grid := eg,
                             perimeters := (perimeters st)
                               [nat (py_pos (length (perimeters st)) (eid - 1)) :=
                                  p\<lparr>coords := add_coordinates (coords p) (map Pt new_pts)\<rparr>]\<rparr>)))
         else Inr st)
      else merge_perimeters st (curr_event_ids ! 0) (curr_event_ids ! 1))"

text \<open>The loop over the detections of one cell, and the loop over the cells.\<close>

fun assign_burns ::
  "int \<Rightarrow> burn_grid \<Rightarrow> int list list list \<Rightarrow> int \<times> int \<Rightarrow> int list \<Rightarrow> cls_state \<Rightarrow> py_error + cls_state" where
  "assign_burns temporal_param g window origin [] st = Inr st"
| "assign_burns temporal_param g window origin (burn # rest) st =
     (case candidate_points g window origin burn temporal_param of
        Inl e \<Rightarrow> Inl e
      | Inr cands \<Rightarrow>
          (case assign_burn st cands of
             Inl e \<Rightarrow> Inl e
           | Inr st' \<Rightarrow> assign_burns temporal_param g window origin rest st'))"

definition process_cell :: "nat \<Rightarrow> int \<Rightarrow> burn_grid \<Rightarrow> int \<times> int \<Rightarrow> cls_state \<Rightarrow> py_error + cls_state" where
  "process_cell spatial_param temporal_param g pair st =
     (let w = get_spatial_window spatial_param (fst pair) (snd pair) (int (bg_ny g), int (bg_nx g));
          window = extract_window (bg_values g) w
      in case center_series window (fst (w_center w)) (snd (w_center w)) of
           Inl e \<Rightarrow> Inl e
         | Inr center_burn \<Rightarrow>
             assign_burns temporal_param g window (w_origin w)
               (filter (\<lambda>v. 0 < v) center_burn) st)"

fun process_cells :: "nat \<Rightarrow> int \<Rightarrow> burn_grid \<Rightarrow> (int \<times> int) list \<Rightarrow> cls_state \<Rightarrow> py_error + cls_state" where
  "process_cells spatial_param temporal_param g [] st = Inr st"
| "process_cells spatial_param temporal_param g (pair # rest) st =
     (case process_cell spatial_param temporal_param g pair st of
        Inl e \<Rightarrow> Inl e
      | Inr st' \<Rightarrow> process_cells spatial_param temporal_param g rest st')"

text \<open>
  \<open>EventGrid.get_event_perimeters\<close>, started on the object's \<open>event_grid\<close> and
  \<open>next_event_id\<close> with an empty list of perimeters; \<open>fresh_state\<close> is the state
  \<open>EventGrid.__init__\<close> sets up.
\<close>

definition get_event_perimeters :: "nat \<Rightarrow> int \<Rightarrow> burn_grid \<Rightarrow> event_grid \<times> int \<Rightarrow> py_error + cls_state" where
  "get_event_perimeters spatial_param temporal_param g obj =
     (case get_availables g of
        Inl e \<Rightarrow> Inl e
      | Inr available_pairs \<Rightarrow>
          process_cells spatial_param temporal_param g available_pairs
            \<lparr>event_grid = fst obj, next_event_id = snd obj, perimeters = []\<rparr>)"

definition fresh_state :: cls_state where
  "fresh_state = \<lparr>event_grid = Map.empty, next_event_id = 1, perimeters = []\<rparr>"

text \<open>
  The states that classification passes through: the fresh state, and every state that
  a detection step produces from one of them, whatever the candidate points are.
\<close>

inductive classifying :: "cls_state \<Rightarrow> bool" where
  start: "classifying fresh_state"
| step: "classifying st \<Longrightarrow> assign_burn st cands = Inr st' \<Longrightarrow> classifying st'"

text \<open>
  A perimeter is tombstoned when its \<open>coords\<close> start with the merge notice: the test
  \<open>type(p.coords[0]) is str\<close> that \<open>buildEvents\<close> uses to drop merged perimeters.
\<close>

fun is_str :: "pyval \<Rightarrow> bool" where
  "is_str (Str _) = True"
| "is_str _ = False"

definition tombstoned :: "perimeter \<Rightarrow> bool" where
  "tombstoned p = (case coords p of [] \<Rightarrow> False | c # _ \<Rightarrow> is_str c)"

section \<open>The per-tile event table\<close>

text \<open>
  One row of the table that \<open>buildEvents\<close> writes for a tile: the event id, the day
  number of the date, the coordinates and the edge flag.
\<close>

record tile_row =
  r_id :: int
  r_date :: int
  r_x :: real
  r_y :: real
  r_edge :: bool

definition edgeCheck :: "real list \<Rightarrow> real list \<Rightarrow> point \<Rightarrow> real \<Rightarrow> bool" where
  "edgeCheck yedges xedges coord sp_buffer =
     (let y = fst coord; x = fst (snd coord)
      in if y \<in> set yedges then True else if x \<in> set xedges then True else False)"

text \<open>
  The coordinates that count as edge: \<open>data[:spatial_param]\<close> and
  \<open>data[-spatial_param:]\<close> of each axis. \<open>py_slice_from\<close> is the slice \<open>a[lo:]\<close>.
\<close>

definition py_slice_from :: "'a list \<Rightarrow> int \<Rightarrow> 'a list" where
  "py_slice_from xs lo = drop (py_bound (length xs) lo) xs"

definition edge_coords :: "nat \<Rightarrow> real list \<Rightarrow> real list \<Rightarrow> real list \<times> real list" where
  "edge_coords spatial_param all_ys all_xs =
     (let maxys = py_slice all_ys 0 (int spatial_param);
          minys = py_slice_from all_ys (- int spatial_param);
          maxxs = py_slice_from all_xs (- int spatial_param);
          minxs = py_slice all_xs 0 (int spatial_param)
      in (maxys @ minys, maxxs @ minxs))"

text \<open>
  \<open>[p for p in perims if type(p.coords[0]) is not str]\<close>: reading the first item of
  an empty list raises.
\<close>

fun live_perimeters :: "perimeter list \<Rightarrow> py_error + perimeter list" where
  "live_perimeters [] = Inr []"
| "live_perimeters (p # ps) =
     (case coords p of
        [] \<Rightarrow> Inl IndexError
      | c # _ \<Rightarrow>
          (case live_perimeters ps of
             Inl e \<Rightarrow> Inl e
           | Inr kept \<Rightarrow> Inr (if is_str c then kept else p # kept)))"

text \<open>
  The rows are built from point tuples. An item of \<open>coords\<close> that is a string or a list
  makes the source raise while it builds the row (the kind of exception depends on the
  item); the model returns \<open>TypeError\<close> for every such item.
\<close>

fun entry_points :: "pyval list \<Rightarrow> py_error + point list" where
  "entry_points [] = Inr []"
| "entry_points (Pt c # cs) =
     (case entry_points cs of Inl e \<Rightarrow> Inl e | Inr rest \<Rightarrow> Inr (c # rest))"
| "entry_points (_ # cs) = Inl TypeError"

definition perimeter_rows :: "real list \<Rightarrow> real list \<Rightarrow> real \<Rightarrow> int \<Rightarrow> point list \<Rightarrow> tile_row list" where
  "perimeter_rows yedges xedges sp_buf eid coord =
     (let edge = map (\<lambda>c. edgeCheck yedges xedges c sp_buf) coord;
          edge' = (if list_ex (\<lambda>e. e) edge then map (\<lambda>e. True) edge else edge)
      in map (\<lambda>(c, e). \<lparr>r_id = eid, r_date = snd (snd c), r_x = fst (snd c),
                          r_y = fst c, r_edge = e\<rparr>) (zip coord edge'))"

fun table_rows ::
  "real list \<Rightarrow> real list \<Rightarrow> real \<Rightarrow> (int \<times> pyval list) list \<Rightarrow> py_error + tile_row list list" where
  "table_rows yedges xedges sp_buf [] = Inr []"
| "table_rows yedges xedges sp_buf (p # plist) =
     (case entry_points (snd p) of
        Inl e \<Rightarrow> Inl e
      | Inr coord \<Rightarrow>
          (case table_rows yedges xedges sp_buf plist of
             Inl e \<Rightarrow> Inl e
           | Inr rest \<Rightarrow> Inr (perimeter_rows yedges xedges sp_buf (fst p) coord # rest)))"

definition tile_table :: "nat \<Rightarrow> real \<Rightarrow> burn_grid \<Rightarrow> perimeter list \<Rightarrow> py_error + tile_row list" where
  "tile_table spatial_param sp_buf g perims =
     (case live_perimeters perims of
        Inl e \<Rightarrow> Inl e
      | Inr live \<Rightarrow>
          (let plist = map (\<lambda>p. (event_id p, coords p)) live;
               (yedges, xedges) = edge_coords spatial_param (bg_ys g) (bg_xs g)
           in case table_rows yedges xedges sp_buf plist of
                Inl e \<Rightarrow> Inl e
              | Inr rows \<Rightarrow> Inr (concat rows)))"

section \<open>The tile stitcher\<close>

text \<open>
  A row of the edge table \<open>edges\<close>: the tile-qualified event id, the coordinates and the
  day number.
\<close>

record edge_row =
  e_id :: string
  e_y :: real
  e_x :: real
  e_days :: int

text \<open>\<open>Series.unique()\<close>: the distinct values in the order of their first appearance.\<close>

definition unique :: "'a list \<Rightarrow> 'a list" where
  "unique xs = foldl (\<lambda>seen x. if x \<in> set seen then seen else seen @ [x]) [] xs"

text \<open>
  \<open>spCheck\<close>: the differences within the buffer are collected, and \<open>any\<close> tests the
  truth value of each collected difference, which is false for a difference of zero.
\<close>

definition spCheck :: "real list \<Rightarrow> real \<Rightarrow> bool" where
  "spCheck diff_list sp_buf =
     (let checks = filter (\<lambda>e. \<bar>e\<bar> < sp_buf) diff_list
      in if list_ex (\<lambda>e. e \<noteq> 0) checks then True else False)"

text \<open>\<open>edges["id"][edges["id"] == a] = b\<close>.\<close>

definition relabel :: "string \<Rightarrow> string \<Rightarrow> edge_row list \<Rightarrow> edge_row list" where
  "relabel a b edges = map (\<lambda>r. if e_id r = a then r\<lparr>e_id := b\<rparr> else r) edges"

text \<open>
  The spatial test of one event against another, and the inner loop over the
  candidate ids \<open>eids2\<close>. The rows \<open>edf\<close> of the current id and its first day \<open>d1\<close> are
  those read before the loop. The minimum of an empty column is NaN, and every
  comparison with NaN is false.
\<close>

definition spatially_close :: "real \<Rightarrow> edge_row list \<Rightarrow> edge_row list \<Rightarrow> bool" where
  "spatially_close sp_buf edf edf2 =
     (let ydiffs = map (\<lambda>y. map (\<lambda>y2. y - y2) (map e_y edf2)) (map e_y edf);
          xdiffs = map (\<lambda>x. map (\<lambda>x2. x - x2) (map e_x edf2)) (map e_x edf);
          ychecks = map (\<lambda>yds. spCheck yds sp_buf) ydiffs;
          xchecks = map (\<lambda>xds. spCheck xds sp_buf) xdiffs;
          checks = map (\<lambda>i. ychecks ! i \<and> xchecks ! i) [0..<length ychecks]
      in list_ex (\<lambda>c. c) checks)"

fun merge_candidates ::
  "real \<Rightarrow> edge_row list \<Rightarrow> string \<Rightarrow> int \<Rightarrow> string list \<Rightarrow> edge_row list \<Rightarrow> edge_row list" where
  "merge_candidates sp_buf edf iden d1 [] edges = edges"
| "merge_candidates sp_buf edf iden d1 (iden2 # rest) edges =
     (let edf2 = filter (\<lambda>r. e_id r = iden2) edges
      in if spatially_close sp_buf edf edf2 then
           (if (case map e_days edf2 of [] \<Rightarrow> False | d # ds \<Rightarrow> d1 < fold min ds d)
            then merge_candidates sp_buf edf iden d1 rest (relabel iden2 iden edges)
            else merge_candidates sp_buf edf iden d1 rest (relabel iden iden2 edges))
         else merge_candidates sp_buf edf iden d1 rest edges)"

text \<open>
  The loop over the edge ids. \<open>d1\<close> and \<open>d2\<close> keep the values of the previous id when
  the current id has no rows left (the \<open>except: pass\<close>); reading them before any
  assignment raises.
\<close>

fun merge_edge_ids ::
  "int \<Rightarrow> real \<Rightarrow> string list \<Rightarrow> (int \<times> int) option \<Rightarrow> edge_row list \<Rightarrow> py_error + edge_row list" where
  "merge_edge_ids temporal_param sp_buf [] ds edges = Inr edges"
| "merge_edge_ids temporal_param sp_buf (iden # rest) ds edges =
     (let edf = filter (\<lambda>r. e_id r = iden) edges;
          edf2 = filter (\<lambda>r. e_id r \<noteq> iden) edges;
          ds' = (case map e_days edf of [] \<Rightarrow> ds | d # days \<Rightarrow> Some (fold min days d, fold max days d))
      in case ds' of
           None \<Rightarrow> Inl UnboundLocalError
         | Some (d1, d2) \<Rightarrow>
             (let near = filter (\<lambda>r. \<bar>e_days r - d1\<bar> < temporal_param \<or>
                                      \<bar>e_days r - d2\<bar> < temporal_param) edf2;
                  eids2 = unique (map e_id near)
              in merge_edge_ids temporal_param sp_buf rest ds'
                   (merge_candidates sp_buf edf iden d1 eids2 edges)))"

definition merge_edges :: "int \<Rightarrow> real \<Rightarrow> edge_row list \<Rightarrow> py_error + edge_row list" where
  "merge_edges temporal_param sp_buf edges =
     merge_edge_ids temporal_param sp_buf (unique (map e_id edges)) None edges"

section \<open>Predicates of the statements and example data\<close>

text \<open>The shape of one plane of the array: \<open>ny\<close> rows of \<open>nx\<close> cells.\<close>

definition plane_shape :: "int list list \<Rightarrow> nat \<Rightarrow> nat \<Rightarrow> bool" where
  "plane_shape p ny nx \<longleftrightarrow> length p = ny \<and> (\<forall>row \<in> set p. length row = nx)"

text \<open>
  The perimeter list is aligned with the event ids when the perimeter at index \<open>i\<close> has
  the id \<open>i + 1\<close> and the next id to hand out is one more than the number of perimeters.
\<close>

definition aligned :: "cls_state \<Rightarrow> bool" where
  "aligned st \<longleftrightarrow>
     next_event_id st = int (length (perimeters st)) + 1 \<and>
     (\<forall>i < length (perimeters st). event_id (perimeters st ! i) = int i + 1)"

text \<open>
  Every key of the event grid maps to the id of a perimeter that the index
  \<open>perimeters[id - 1]\<close> finds, that is not tombstoned and has no merge id, and that
  holds the key among its \<open>coords\<close>.
\<close>

definition grid_live :: "cls_state \<Rightarrow> bool" where
  "grid_live st \<longleftrightarrow>
     (\<forall>k e. event_grid st k = Some e \<longrightarrow>
        (\<exists>p. py_index (perimeters st) (e - 1) = Inr p \<and> event_id p = e \<and>
             \<not> tombstoned p \<and> merge_id p = None \<and> k \<in> set (coords p)))"

text \<open>
  Two small tiles used to run the classifier: a \<open>3 \<times> 4\<close> tile with one time step in
  which three detections each see two events, and a \<open>1 \<times> 2\<close> tile with a detection on
  day 5 next to a cell without detection.
\<close>

definition merge_tile :: burn_grid where
  "merge_tile =
     \<lparr>bg_values = [[[11, 0, 0, 11], [14, 11, 11, 14], [12, 13, 13, 0]]],
      bg_ny = 3, bg_nx = 4, bg_ys = [3, 2, 1], bg_xs = [1, 2, 3, 4]\<rparr>"

definition early_tile :: burn_grid where
  "early_tile = \<lparr>bg_values = [[[5, 0]]], bg_ny = 1, bg_nx = 2, bg_ys = [10], bg_xs = [20, 21]\<rparr>"

text \<open>The coordinate axes of a \<open>5 \<times> 5\<close> tile, for building example tables.\<close>

definition edge_tile :: burn_grid where
  "edge_tile = \<lparr>bg_values = [], bg_ny = 5, bg_nx = 5,
                 bg_ys = [5, 4, 3, 2, 1], bg_xs = [1, 2, 3, 4, 5]\<rparr>"


definition same_row_pair :: "edge_row list" where
  "same_row_pair =
     [\<lparr>e_id = ''h08v05_1'', e_y = 7, e_x = 4, e_days = 50\<rparr>,
      \<lparr>e_id = ''h09v05_1'', e_y = 7, e_x = 5, e_days = 52\<rparr>]"

definition next_row_pair :: "edge_row list" where
  "next_row_pair =
     [\<lparr>e_id = ''h08v05_1'', e_y = 7, e_x = 4, e_days = 50\<rparr>,
      \<lparr>e_id = ''h09v05_1'', e_y = 6, e_x = 5, e_days = 52\<rparr>]"


text \<open>A state with two live events of one point each.\<close>

definition two_events :: cls_state where
  "two_events =
     \<lparr>event_grid = [Pt (3, 1, 11) \<mapsto> 1, Pt (3, 4, 20) \<mapsto> 2], next_event_id = 3,
      perimeters = [\<lparr>event_id = 1, merge_id = None, coords = [Pt (3, 1, 11)]\<rparr>,
                    \<lparr>event_id = 2, merge_id = None, coords = [Pt (3, 4, 20)]\<rparr>]\<rparr>"

text \<open>
  The two shapes that the \<open>coords\<close> of a perimeter take during classification: a list
  of points, or the notice followed by the list of the former points.
\<close>

definition coords_wf :: "perimeter \<Rightarrow> bool" where
  "coords_wf p \<longleftrightarrow>
     (\<forall>c \<in> set (coords p). \<exists>q. c = Pt q) \<or> (\<exists>notice pts. coords p = [Str notice, Lst pts])"









section \<open>Proofs: the spatial window locator\<close>



lemma edges_1_iff: "y \<in> set (map (\<lambda>t. 0 + t) (map int [0..<sp])) \<longleftrightarrow> 0 \<le> y \<and> y < int sp"
  by (auto simp: image_iff) (metis nat_less_iff nat_0_le atLeastLessThan_iff zero_le int_nat_eq)

lemma edges_2_iff: "y \<in> set (map (\<lambda>t. ydim - t) (map int [0..<sp])) \<longleftrightarrow> ydim - int sp < y \<and> y \<le> ydim"
proof
  assume "y \<in> set (map (\<lambda>t. ydim - t) (map int [0..<sp]))"
  then obtain t where "t < sp" "y = ydim - int t" by auto
  then show "ydim - int sp < y \<and> y \<le> ydim" by simp
next
  assume a: "ydim - int sp < y \<and> y \<le> ydim"
  then have "nat (ydim - y) < sp" "y = ydim - int (nat (ydim - y))" by auto
  then show "y \<in> set (map (\<lambda>t. ydim - t) (map int [0..<sp]))"
    by (auto simp: image_iff intro!: bexI[of _ "nat (ydim - y)"])
qed

lemma center_origin_cases:
  "center_origin sp y ydim =
     (if 0 \<le> y \<and> y < int sp then (y, 0)
      else if ydim - int sp < y \<and> y \<le> ydim then (y - ydim, y - int sp)
      else (int sp, y - int sp))"
  unfolding center_origin_def Let_def edges_1_iff edges_2_iff by simp

lemma drop_take_nth: "drop a (take b xs) = map (\<lambda>i. xs ! i) [a..<min b (length xs)]"
proof (rule nth_equalityI)
  show "length (drop a (take b xs)) = length (map (\<lambda>i. xs ! i) [a..<min b (length xs)])"
    by auto
next
  fix i assume "i < length (drop a (take b xs))"
  then have "i < min b (length xs) - a" by auto
  then show "drop a (take b xs) ! i = map (\<lambda>i. xs ! i) [a..<min b (length xs)] ! i"
    by (simp add: min_def split: if_splits)
qed

lemma py_slice_nth:
  assumes "0 \<le> lo" "0 \<le> hi"
  shows "py_slice xs lo hi = map (\<lambda>i. xs ! i) [nat lo..<nat (min hi (int (length xs)))]"
proof -
  have "py_bound (length xs) lo = nat lo \<or> length xs \<le> nat lo"
    using assms by (auto simp: py_bound_def min_def)
  moreover have b: "py_bound (length xs) hi = min (nat hi) (length xs)"
    using assms by (auto simp: py_bound_def min_def)
  moreover have c: "nat (min hi (int (length xs))) = min (nat hi) (length xs)"
    using assms by (auto simp: min_def)
  moreover have "length xs \<le> nat lo \<Longrightarrow> py_bound (length xs) lo = length xs"
    using assms by (auto simp: py_bound_def min_def)
  ultimately show ?thesis
    unfolding py_slice_def by (auto simp: drop_take_nth)
qed

lemma py_index_map:
  "py_index (map f xs) i = (case py_index xs i of Inl e \<Rightarrow> Inl e | Inr v \<Rightarrow> Inr (f v))"
  by (auto simp: py_index_def nat_less_iff)

lemma py_index_range:
  "py_index (map (\<lambda>i. xs ! i) [a..<b]) c =
     (if 0 \<le> c \<and> c < int (b - a) then Inr (xs ! (a + nat c))
      else if c < 0 \<and> 0 \<le> int (b - a) + c then Inr (xs ! (a + nat (int (b - a) + c)))
      else Inl IndexError)"
  by (auto simp: py_index_def py_pos_def nat_less_iff)

lemma window_axis_center:
  assumes "0 \<le> y" "y < n" "length xs = nat n"
  shows "py_index (py_slice xs (max 0 (y - int sp)) (min n (y + int sp) + 1))
           (fst (center_origin sp y n)) = Inr (xs ! nat y)"
proof -
  define a where "a = nat (max 0 (y - int sp))"
  define b where "b = nat (min (min n (y + int sp) + 1) (int (length xs)))"
  have sl: "py_slice xs (max 0 (y - int sp)) (min n (y + int sp) + 1) = map (\<lambda>i. xs ! i) [a..<b]"
    unfolding a_def b_def using assms by (intro py_slice_nth) auto
  consider (lo) "y < int sp" | (hi) "int sp \<le> y" "n - int sp < y" | (mid) "int sp \<le> y" "y \<le> n - int sp"
    by linarith
  then show ?thesis
  proof cases
    case lo
    then have co: "fst (center_origin sp y n) = y"
      using assms by (simp add: center_origin_cases)
    have "a = 0" "nat y < b" using lo assms by (auto simp: a_def b_def min_def)
    then show ?thesis
      unfolding sl co py_index_range using assms by (auto simp: nat_less_iff)
  next
    case hi
    then have co: "fst (center_origin sp y n) = y - n"
      using assms by (simp add: center_origin_cases)
    have "a = nat (y - int sp)" "b = nat n" using hi assms by (auto simp: a_def b_def min_def)
    moreover have "int (nat n - nat (y - int sp)) + (y - n) = int sp" using hi assms by auto
    moreover have "nat (y - int sp) + sp = nat y" using hi by simp
    ultimately show ?thesis
      unfolding sl co py_index_range using assms by simp
  next
    case mid
    then have co: "fst (center_origin sp y n) = int sp"
      using assms by (simp add: center_origin_cases)
    have "a = nat (y - int sp)" "nat y < b" using mid assms by (auto simp: a_def b_def min_def)
    moreover have "nat (y - int sp) + sp = nat y" using mid by simp
    ultimately show ?thesis
      unfolding sl co py_index_range using assms mid by (auto simp: nat_less_iff)
  qed
qed

lemma window_axis_origin:
  assumes "0 \<le> y"
  shows "snd (center_origin sp y n) = max 0 (y - int sp)"
  using assms by (auto simp: center_origin_cases)

lemma window_bounds:
  assumes "0 \<le> y" "y < ny" "0 \<le> x" "x < nx"
  shows "w_top (get_spatial_window sp y x (ny, nx)) = max 0 (y - int sp)"
    and "w_bottom (get_spatial_window sp y x (ny, nx)) = min ny (y + int sp)"
    and "w_left (get_spatial_window sp y x (ny, nx)) = max 0 (x - int sp)"
    and "w_right (get_spatial_window sp y x (ny, nx)) = min nx (x + int sp)"
    and "w_center (get_spatial_window sp y x (ny, nx)) =
           (fst (center_origin sp y ny), fst (center_origin sp x nx))"
    and "w_origin (get_spatial_window sp y x (ny, nx)) =
           (snd (center_origin sp y ny), snd (center_origin sp x nx))"
  by (simp_all add: get_spatial_window_def Let_def split_beta)

lemma plane_window:
  assumes "length plane = nat ny" "\<forall>row \<in> set plane. length row = nat nx"
    and "0 \<le> t" "0 \<le> b" "0 \<le> l" "0 \<le> r"
  shows "map (\<lambda>row. py_slice row l r) (py_slice plane t b) =
         map (\<lambda>i. map (\<lambda>j. plane ! i ! j) [nat l..<nat (min r nx)]) [nat t..<nat (min b ny)]"
proof -
  have 1: "py_slice plane t b = map (\<lambda>i. plane ! i) [nat t..<nat (min b ny)]"
    using assms by (simp add: py_slice_nth min_def)
  have 2: "py_slice (plane ! i) l r = map (\<lambda>j. plane ! i ! j) [nat l..<nat (min r nx)]"
    if "i < nat (min b ny)" for i
  proof -
    have "i < length plane" using that assms by (auto simp: min_def split: if_splits)
    then have "length (plane ! i) = nat nx" using assms(2) by simp
    then show ?thesis using assms by (simp add: py_slice_nth min_def)
  qed
  show ?thesis unfolding 1 by (simp add: 2)
qed

lemma center_series_window:
  assumes "0 \<le> y" "y < ny" "0 \<le> x" "x < nx" "grid_shape arr ny nx"
  shows "center_series (extract_window arr (get_spatial_window sp y x (ny, nx)))
           (fst (center_origin sp y ny)) (fst (center_origin sp x nx)) =
         Inr (map (\<lambda>plane. plane ! nat y ! nat x) arr)"
  using assms(5)
proof (induction arr)
  case Nil
  show ?case by (simp add: extract_window_def)
next
  case (Cons plane arr)
  have sh: "length plane = nat ny" "\<forall>row \<in> set plane. length row = nat nx" "grid_shape arr ny nx"
    using Cons.prems by (auto simp: grid_shape_def)
  have rowlen: "length (plane ! nat y) = nat nx"
    using sh assms by (simp add: nat_less_iff)
  have r: "py_index (py_slice plane (max 0 (y - int sp)) (min ny (y + int sp) + 1))
             (fst (center_origin sp y ny)) = Inr (plane ! nat y)"
    by (rule window_axis_center) (use assms sh in auto)
  have c: "py_index (py_slice (plane ! nat y) (max 0 (x - int sp)) (min nx (x + int sp) + 1))
             (fst (center_origin sp x nx)) = Inr (plane ! nat y ! nat x)"
    by (rule window_axis_center) (use assms rowlen in auto)
  have ih: "center_series (extract_window arr (get_spatial_window sp y x (ny, nx)))
           (fst (center_origin sp y ny)) (fst (center_origin sp x nx)) =
         Inr (map (\<lambda>plane. plane ! nat y ! nat x) arr)"
    using Cons.IH sh by simp
  show ?case
    using ih r c assms(1-4)
    by (simp add: extract_window_def window_bounds py_index_map)
qed

text \<open>
  Claim C5, as the code has it. For every cell \<open>(y, x)\<close> of the grid the locator returns
  bounds with \<open>0 \<le> top \<le> y \<le> bottom \<le> ny\<close> and \<open>0 \<le> left \<le> x \<le> right \<le> nx\<close>
  (the far bounds may be \<open>ny\<close> and \<open>nx\<close> themselves), the origin is \<open>(top, left)\<close>, the
  window that the slice \<open>top:bottom+1, left:right+1\<close> extracts holds exactly the grid
  cells of the rows \<open>top \<le> i < min (bottom + 1) ny\<close> and the columns
  \<open>left \<le> j < min (right + 1) nx\<close>, without wrap-around, indexing it at the returned
  center gives the time series of the cell \<open>(y, x)\<close>, and the window has the full size
  \<open>2 * spatial_param + 1\<close> along an axis exactly when the cell is at least
  \<open>spatial_param\<close> cells from the near border and more than \<open>spatial_param\<close> cells
  from the far one: it is smaller near the tile borders.
\<close>

theorem spatial_window_locates_cell:
  assumes "0 \<le> y" "y < ny" "0 \<le> x" "x < nx" "grid_shape arr ny nx"
  shows "let w = get_spatial_window sp y x (ny, nx) in
           0 \<le> w_top w \<and> w_top w \<le> y \<and> y \<le> w_bottom w \<and> w_bottom w \<le> ny \<and>
           0 \<le> w_left w \<and> w_left w \<le> x \<and> x \<le> w_right w \<and> w_right w \<le> nx \<and>
           w_origin w = (w_top w, w_left w) \<and>
           extract_window arr w =
             map (\<lambda>plane. map (\<lambda>i. map (\<lambda>j. plane ! i ! j)
                                [nat (w_left w)..<nat (min (w_right w + 1) nx)])
                            [nat (w_top w)..<nat (min (w_bottom w + 1) ny)]) arr \<and>
           center_series (extract_window arr w) (fst (w_center w)) (snd (w_center w)) =
             Inr (map (\<lambda>plane. plane ! nat y ! nat x) arr) \<and>
           min (w_bottom w + 1) ny - w_top w \<le> 2 * int sp + 1 \<and>
           min (w_right w + 1) nx - w_left w \<le> 2 * int sp + 1 \<and>
           (min (w_bottom w + 1) ny - w_top w = 2 * int sp + 1) = (int sp \<le> y \<and> y + int sp < ny) \<and>
           (min (w_right w + 1) nx - w_left w = 2 * int sp + 1) = (int sp \<le> x \<and> x + int sp < nx)"
proof -
  let ?w = "get_spatial_window sp y x (ny, nx)"
  note wb = window_bounds[OF assms(1-4), of sp]
  have b: "0 \<le> w_top ?w \<and> w_top ?w \<le> y \<and> y \<le> w_bottom ?w \<and> w_bottom ?w \<le> ny \<and>
           0 \<le> w_left ?w \<and> w_left ?w \<le> x \<and> x \<le> w_right ?w \<and> w_right ?w \<le> nx"
    unfolding wb using assms(1-4) by auto
  have o: "w_origin ?w = (w_top ?w, w_left ?w)"
    unfolding wb using assms(1-4) by (simp add: window_axis_origin)
  have e: "extract_window arr ?w =
             map (\<lambda>plane. map (\<lambda>i. map (\<lambda>j. plane ! i ! j)
                                [nat (w_left ?w)..<nat (min (w_right ?w + 1) nx)])
                            [nat (w_top ?w)..<nat (min (w_bottom ?w + 1) ny)]) arr"
    unfolding extract_window_def
  proof (rule map_cong[OF refl])
    fix plane assume "plane \<in> set arr"
    then have "length plane = nat ny" "\<forall>row \<in> set plane. length row = nat nx"
      using assms(5) by (auto simp: grid_shape_def)
    then show "map (\<lambda>row. py_slice row (w_left ?w) (w_right ?w + 1))
                 (py_slice plane (w_top ?w) (w_bottom ?w + 1)) =
               map (\<lambda>i. map (\<lambda>j. plane ! i ! j)
                      [nat (w_left ?w)..<nat (min (w_right ?w + 1) nx)])
                 [nat (w_top ?w)..<nat (min (w_bottom ?w + 1) ny)]"
      using b by (intro plane_window) auto
  qed
  have c: "center_series (extract_window arr ?w) (fst (w_center ?w)) (snd (w_center ?w)) =
             Inr (map (\<lambda>plane. plane ! nat y ! nat x) arr)"
    using center_series_window[OF assms, of sp] by (simp add: wb)
  have s: "min (w_bottom ?w + 1) ny - w_top ?w \<le> 2 * int sp + 1 \<and>
           min (w_right ?w + 1) nx - w_left ?w \<le> 2 * int sp + 1 \<and>
           (min (w_bottom ?w + 1) ny - w_top ?w = 2 * int sp + 1) = (int sp \<le> y \<and> y + int sp < ny) \<and>
           (min (w_right ?w + 1) nx - w_left ?w = 2 * int sp + 1) = (int sp \<le> x \<and> x + int sp < nx)"
    unfolding wb using assms(1-4) by (auto simp: min_def max_def)
  show ?thesis
    unfolding Let_def using b o e c s by blast
qed

text \<open>
  Claim C5 as stated fails for the returned bounds: for the cell \<open>(15, 10)\<close> of a
  \<open>20 \<times> 20\<close> grid with \<open>spatial_param = 5\<close> the returned \<open>bottom\<close> is \<open>20\<close>, which
  is not inside \<open>[0, 20)\<close>.
\<close>

theorem spatial_window_bottom_reaches_ny:
  "\<not> w_bottom (get_spatial_window 5 15 10 (20, 20)) < 20"
  by (simp add: get_spatial_window_def Let_def split_beta)

theorem spatial_window_locates_cell_witness:
  "w_center (get_spatial_window 2 3 0 (4, 4)) = (-1, 0) \<and>
   w_origin (get_spatial_window 2 3 0 (4, 4)) = (1, 0) \<and>
   w_bottom (get_spatial_window 2 3 0 (4, 4)) = 4 \<and>
   extract_window [[[1, 2, 3, 4], [5, 6, 7, 8], [9, 10, 11, 12], [13, 14, 15, 16]]]
     (get_spatial_window 2 3 0 (4, 4)) = [[[5, 6, 7], [9, 10, 11], [13, 14, 15]]] \<and>
   center_series
     (extract_window [[[1, 2, 3, 4], [5, 6, 7, 8], [9, 10, 11, 12], [13, 14, 15, 16]]]
        (get_spatial_window 2 3 0 (4, 4)))
     (fst (w_center (get_spatial_window 2 3 0 (4, 4))))
     (snd (w_center (get_spatial_window 2 3 0 (4, 4)))) = Inr [13]"
proof -
  have sh: "grid_shape [[[1, 2, 3, 4], [5, 6, 7, 8], [9, 10, 11, 12], [13, 14, 15, 16]]] 4 4"
    by (simp add: grid_shape_def)
  have w: "get_spatial_window 2 3 0 (4, 4) =
             \<lparr>w_top = 1, w_bottom = 4, w_left = 0, w_right = 2, w_center = (-1, 0), w_origin = (1, 0)\<rparr>"
    by (simp add: get_spatial_window_def center_origin_def Let_def upt_conv_Cons)
  have "(0::int) \<le> 3" "(3::int) < 4" "(0::int) \<le> 0" "(0::int) < 4" by simp_all
  from spatial_window_locates_cell[OF this sh, of 2]
  show ?thesis
    unfolding w Let_def by (simp add: upt_conv_Cons py_index_def py_pos_def)
qed

section \<open>Proofs: the active-cell extractor\<close>


lemma enumerate_nth: "enumerate 0 xs = map (\<lambda>i. (i, xs ! i)) [0..<length xs]"
  by (rule nth_equalityI) (auto simp: nth_enumerate_eq)

lemma where_positive_nth:
  "where_positive mx =
     concat (map (\<lambda>y. map (\<lambda>x. (int y, int x)) (filter (\<lambda>x. 0 < mx ! y ! x) [0..<length (mx ! y)]))
                 [0..<length mx])"
  by (simp add: where_positive_def enumerate_nth filter_map comp_def)

lemma plane_max_shape:
  assumes "plane_shape p ny nx" "plane_shape q ny nx"
  shows "plane_shape (plane_max p q) ny nx"
  using assms by (auto simp: plane_shape_def plane_max_def set_zip)

lemma plane_max_nth:
  assumes "plane_shape p ny nx" "plane_shape q ny nx" "y < ny" "x < nx"
  shows "plane_max p q ! y ! x = max (p ! y ! x) (q ! y ! x)"
  using assms by (auto simp: plane_shape_def plane_max_def)

lemma foldl_plane_max:
  assumes "plane_shape p ny nx" "\<forall>q \<in> set ps. plane_shape q ny nx"
  shows "plane_shape (foldl plane_max p ps) ny nx \<and>
         (\<forall>y < ny. \<forall>x < nx. foldl plane_max p ps ! y ! x =
             Max (insert (p ! y ! x) ((\<lambda>q. q ! y ! x) ` set ps)))"
  using assms
proof (induction ps arbitrary: p)
  case Nil
  then show ?case by simp
next
  case (Cons q ps)
  have sq: "plane_shape q ny nx" and sps: "\<forall>q \<in> set ps. plane_shape q ny nx"
    using Cons.prems by auto
  have spq: "plane_shape (plane_max p q) ny nx"
    using Cons.prems(1) sq by (rule plane_max_shape)
  note ih = Cons.IH[OF spq sps]
  show ?case
  proof (intro conjI allI impI)
    show "plane_shape (foldl plane_max p (q # ps)) ny nx" using ih by simp
  next
    fix y x assume yx: "y < ny" "x < nx"
    have "foldl plane_max p (q # ps) ! y ! x =
            Max (insert (plane_max p q ! y ! x) ((\<lambda>q. q ! y ! x) ` set ps))"
      using ih yx by simp
    also have "plane_max p q ! y ! x = max (p ! y ! x) (q ! y ! x)"
      using Cons.prems(1) sq yx by (rule plane_max_nth)
    also have "Max (insert (max (p ! y ! x) (q ! y ! x)) ((\<lambda>q. q ! y ! x) ` set ps)) =
               Max (insert (p ! y ! x) ((\<lambda>q. q ! y ! x) ` set (q # ps)))"
    proof (cases "ps = []")
      case True
      then show ?thesis by (simp add: max.commute)
    next
      case False
      then show ?thesis by (simp add: Max_insert max.assoc)
    qed
    finally show "foldl plane_max p (q # ps) ! y ! x =
                    Max (insert (p ! y ! x) ((\<lambda>q. q ! y ! x) ` set (q # ps)))" .
  qed
qed

lemma grid_shape_planes:
  "grid_shape arr (int ny) (int nx) \<longleftrightarrow> (\<forall>p \<in> set arr. plane_shape p ny nx)"
  by (auto simp: grid_shape_def plane_shape_def)

lemma time_max_nth:
  assumes "grid_shape arr (int ny) (int nx)" "arr \<noteq> []"
  shows "\<exists>mx. time_max arr = Inr mx \<and> plane_shape mx ny nx \<and>
           (\<forall>y < ny. \<forall>x < nx. mx ! y ! x = Max ((\<lambda>q. q ! y ! x) ` set arr))"
proof -
  obtain p ps where arr: "arr = p # ps" using assms(2) by (cases arr) auto
  have "plane_shape p ny nx" "\<forall>q \<in> set ps. plane_shape q ny nx"
    using assms(1) unfolding grid_shape_planes arr by auto
  from foldl_plane_max[OF this] show ?thesis
    unfolding arr by (simp add: time_max_def)
qed

text \<open>
  Claim C8, as the code has it. For every well-formed burn grid with at least one time
  step, the active-cell extractor returns exactly the cells \<open>(y, x)\<close> whose maximum over
  the time axis is positive, the rows in ascending order and the columns in ascending
  order within each row; when no value of the grid is positive the result is the empty
  list, not an error. For a grid without time steps the reduction over the time axis
  raises \<open>ValueError\<close>.
\<close>

theorem get_availables_row_major:
  assumes "wf_grid g"
  shows "(bg_values g \<noteq> [] \<longrightarrow>
            get_availables g =
              Inr (concat (map (\<lambda>y. map (\<lambda>x. (int y, int x))
                     (filter (\<lambda>x. 0 < Max ((\<lambda>plane. plane ! y ! x) ` set (bg_values g)))
                        [0..<bg_nx g])) [0..<bg_ny g])) \<and>
            ((\<forall>plane \<in> set (bg_values g). \<forall>row \<in> set plane. \<forall>v \<in> set row. v \<le> 0) \<longrightarrow>
               get_availables g = Inr [])) \<and>
         (bg_values g = [] \<longrightarrow> get_availables g = Inl ValueError)"
proof (rule conjI)
  show "bg_values g = [] \<longrightarrow> get_availables g = Inl ValueError"
    by (simp add: get_availables_def time_max_def)
next
  show "bg_values g \<noteq> [] \<longrightarrow>
            get_availables g =
              Inr (concat (map (\<lambda>y. map (\<lambda>x. (int y, int x))
                     (filter (\<lambda>x. 0 < Max ((\<lambda>plane. plane ! y ! x) ` set (bg_values g)))
                        [0..<bg_nx g])) [0..<bg_ny g])) \<and>
            ((\<forall>plane \<in> set (bg_values g). \<forall>row \<in> set plane. \<forall>v \<in> set row. v \<le> 0) \<longrightarrow>
               get_availables g = Inr [])"
  proof (rule impI)
  assume ne: "bg_values g \<noteq> []"
  show "get_availables g =
              Inr (concat (map (\<lambda>y. map (\<lambda>x. (int y, int x))
                     (filter (\<lambda>x. 0 < Max ((\<lambda>plane. plane ! y ! x) ` set (bg_values g)))
                        [0..<bg_nx g])) [0..<bg_ny g])) \<and>
            ((\<forall>plane \<in> set (bg_values g). \<forall>row \<in> set plane. \<forall>v \<in> set row. v \<le> 0) \<longrightarrow>
               get_availables g = Inr [])"
  proof -
    let ?arr = "bg_values g"
    let ?pos = "\<lambda>y x. 0 < Max ((\<lambda>plane. plane ! y ! x) ` set ?arr)"
    have sh: "grid_shape ?arr (int (bg_ny g)) (int (bg_nx g))"
      using assms(1) by (simp add: wf_grid_def)
    from time_max_nth[OF sh ne] obtain mx where
      mx: "time_max ?arr = Inr mx" "plane_shape mx (bg_ny g) (bg_nx g)"
      and nth: "\<forall>y < bg_ny g. \<forall>x < bg_nx g. mx ! y ! x = Max ((\<lambda>q. q ! y ! x) ` set ?arr)"
      by blast
    have rows: "length (mx ! y) = bg_nx g" if "y < bg_ny g" for y
      using mx(2) that by (simp add: plane_shape_def)
    have inner: "filter (\<lambda>x. 0 < mx ! y ! x) [0..<length (mx ! y)] = filter (?pos y) [0..<bg_nx g]"
      if "y < bg_ny g" for y
    proof -
      have "filter (\<lambda>x. 0 < mx ! y ! x) [0..<bg_nx g] = filter (?pos y) [0..<bg_nx g]"
        by (rule filter_cong) (use nth that in auto)
      then show ?thesis by (simp add: rows[OF that])
    qed
    have main: "get_availables g =
             Inr (concat (map (\<lambda>y. map (\<lambda>x. (int y, int x)) (filter (?pos y) [0..<bg_nx g]))
                    [0..<bg_ny g]))"
    proof -
      have "length mx = bg_ny g" using mx(2) by (simp add: plane_shape_def)
      then have "where_positive mx =
                   concat (map (\<lambda>y. map (\<lambda>x. (int y, int x)) (filter (?pos y) [0..<bg_nx g]))
                     [0..<bg_ny g])"
        unfolding where_positive_nth by (intro arg_cong[where f = concat] map_cong) (auto simp: inner)
      then show ?thesis by (simp add: get_availables_def mx(1))
    qed
    have none: "get_availables g = Inr []"
      if np: "\<forall>plane \<in> set ?arr. \<forall>row \<in> set plane. \<forall>v \<in> set row. v \<le> 0"
    proof -
      have "\<not> ?pos y x" if "y < bg_ny g" "x < bg_nx g" for y x
      proof -
        have "q ! y ! x \<le> 0" if "q \<in> set ?arr" for q
        proof -
          have "length q = bg_ny g" "\<forall>row \<in> set q. length row = bg_nx g"
            using sh that by (auto simp: grid_shape_def)
          then have "q ! y \<in> set q" "q ! y ! x \<in> set (q ! y)"
            using \<open>y < bg_ny g\<close> \<open>x < bg_nx g\<close> by auto
          then show ?thesis using np that by blast
        qed
        then have "Max ((\<lambda>plane. plane ! y ! x) ` set ?arr) \<le> 0"
          using ne by (subst Max_le_iff) auto
        then show ?thesis by simp
      qed
      then have "filter (?pos y) [0..<bg_nx g] = []" if "y < bg_ny g" for y
        using that by (auto simp: filter_empty_conv)
      then have "concat (map (\<lambda>y. map (\<lambda>x. (int y, int x)) (filter (?pos y) [0..<bg_nx g]))
                    [0..<bg_ny g]) = []"
        by simp
      then show ?thesis using main by simp
    qed
    show ?thesis using main none by blast
  qed
  qed
qed

text \<open>
  Claim C8 as stated fails for a burn grid without time steps: the grid is well formed
  and holds no positive value, and the extractor raises \<open>ValueError\<close> instead of
  returning the empty list.
\<close>

theorem get_availables_empty_time_axis_raises:
  "wf_grid \<lparr>bg_values = [], bg_ny = 2, bg_nx = 2, bg_ys = [10, 9], bg_xs = [20, 21]\<rparr> \<and>
   get_availables \<lparr>bg_values = [], bg_ny = 2, bg_nx = 2, bg_ys = [10, 9], bg_xs = [20, 21]\<rparr> =
     Inl ValueError"
  by (simp add: wf_grid_def grid_shape_def get_availables_def time_max_def)

theorem get_availables_row_major_witness:
  "get_availables \<lparr>bg_values = [[[0, 7], [0, 0]], [[3, 0], [0, -1]]], bg_ny = 2, bg_nx = 2,
                    bg_ys = [10, 9], bg_xs = [20, 21]\<rparr> = Inr [(0, 0), (0, 1)] \<and>
   get_availables \<lparr>bg_values = [[[0, 0], [-2, 0]]], bg_ny = 2, bg_nx = 2,
                    bg_ys = [10, 9], bg_xs = [20, 21]\<rparr> = Inr [] \<and>
   get_availables \<lparr>bg_values = [], bg_ny = 1, bg_nx = 1, bg_ys = [10], bg_xs = [20]\<rparr> =
     Inl ValueError"
proof -
  let ?g = "\<lparr>bg_values = [[[0, 7], [0, 0]], [[3, 0], [0, -1]]], bg_ny = 2, bg_nx = 2,
             bg_ys = [10, 9], bg_xs = [20, 21]\<rparr>"
  let ?h = "\<lparr>bg_values = [[[0, 0], [-2, 0]]], bg_ny = 2, bg_nx = 2,
             bg_ys = [10, 9], bg_xs = [20, 21]\<rparr>"
  let ?e = "\<lparr>bg_values = [], bg_ny = 1, bg_nx = 1, bg_ys = [10], bg_xs = [20]\<rparr>"
  have wg: "wf_grid ?g" and wh: "wf_grid ?h" and we: "wf_grid ?e"
    by (simp_all add: wf_grid_def grid_shape_def)
  have ng: "bg_values ?g \<noteq> []" and nh: "bg_values ?h \<noteq> []"
    by simp_all
  have 1: "get_availables ?g = Inr [(0, 0), (0, 1)]"
    using get_availables_row_major[OF wg, THEN conjunct1, THEN mp, OF ng, THEN conjunct1]
    by (simp add: upt_conv_Cons)
  have 2: "get_availables ?h = Inr []"
    using get_availables_row_major[OF wh, THEN conjunct1, THEN mp, OF nh, THEN conjunct2]
    by simp
  have 3: "get_availables ?e = Inl ValueError"
    using get_availables_row_major[OF we, THEN conjunct2] by simp
  show ?thesis using 1 2 3 by simp
qed

section \<open>Proofs: invariants of the event assigner\<close>

lemma py_index_Inr:
  "py_index xs i = Inr v \<longleftrightarrow>
     0 \<le> py_pos (length xs) i \<and> nat (py_pos (length xs) i) < length xs \<and>
     v = xs ! nat (py_pos (length xs) i)"
  by (auto simp: py_index_def nat_less_iff)

lemma grid_put_all_Inr:
  "grid_put_all eg ks e = Inr eg' \<Longrightarrow>
     eg' = (\<lambda>k. if k \<in> set ks then Some e else eg k) \<and> (\<forall>k \<in> set ks. hashable k)"
proof (induction ks arbitrary: eg)
  case Nil
  then show ?case by simp
next
  case (Cons k ks)
  then have h: "hashable k" and r: "grid_put_all (eg(k \<mapsto> e)) ks e = Inr eg'"
    by (auto split: if_splits)
  from Cons.IH[OF r] show ?case using h by (auto simp: fun_eq_iff)
qed

lemma grid_put_all_pts:
  "grid_put_all eg (map Pt ps) e = Inr (\<lambda>k. if k \<in> Pt ` set ps then Some e else eg k)"
proof (induction ps arbitrary: eg)
  case Nil
  then show ?case by simp
next
  case (Cons p ps)
  show ?case by (simp add: Cons.IH) (auto simp: fun_eq_iff)
qed

lemma partition_pts_spec:
  "partition_pts eg cands ids new = (ids', new') \<Longrightarrow> distinct ids \<Longrightarrow>
     distinct ids' \<and>
     set ids' = set ids \<union> {e. \<exists>p \<in> set cands. eg (Pt p) = Some e} \<and>
     new' = new @ filter (\<lambda>p. eg (Pt p) = None) cands \<and>
     (\<exists>more. ids' = ids @ more)"
proof (induction cands arbitrary: ids new)
  case Nil
  then show ?case by simp
next
  case (Cons c cands)
  show ?case
  proof (cases "eg (Pt c)")
    case None
    with Cons.prems have "partition_pts eg cands ids (new @ [c]) = (ids', new')" by simp
    from Cons.IH[OF this Cons.prems(2)] show ?thesis using None by auto
  next
    case (Some e)
    let ?ids = "if e \<in> set ids then ids else ids @ [e]"
    from Some Cons.prems have "partition_pts eg cands ?ids new = (ids', new')" by simp
    moreover have "distinct ?ids" using Cons.prems(2) by simp
    ultimately have "distinct ids' \<and>
       set ids' = set ?ids \<union> {e. \<exists>p \<in> set cands. eg (Pt p) = Some e} \<and>
       new' = new @ filter (\<lambda>p. eg (Pt p) = None) cands \<and> (\<exists>more. ids' = ?ids @ more)"
      by (rule Cons.IH)
    then show ?thesis using Some by (auto split: if_splits)
  qed
qed

lemma merge_perimeters_frame:
  assumes "merge_perimeters st e ob = Inr st'"
  shows "next_event_id st' = next_event_id st \<and>
         length (perimeters st') = length (perimeters st) \<and>
         (\<forall>i < length (perimeters st). event_id (perimeters st' ! i) = event_id (perimeters st ! i))"
  using assms
  by (auto simp: merge_perimeters_def Let_def py_index_Inr nth_list_update
           split: sum.splits if_splits)

lemma assign_burn_create:
  assumes "partition_pts (event_grid st) cands [] [] = ([], new)"
  shows "assign_burn st cands =
           Inr \<lparr>event_grid = (\<lambda>k. if k \<in> Pt ` set new then Some (next_event_id st)
                                   else event_grid st k),
                next_event_id = next_event_id st + 1,
                perimeters = perimeters st @
                  [\<lparr>event_id = next_event_id st, merge_id = None, coords = map Pt new\<rparr>]\<rparr>"
  using assms
  by (simp add: assign_burn_def add_event_grid_def grid_put_all_pts new_perimeter_def
        add_coordinates_def)

lemma assign_burn_extend:
  assumes "partition_pts (event_grid st) cands [] [] = ([e], new)"
  shows "assign_burn st cands =
           (if new \<noteq> [] then
              (case py_index (perimeters st) (e - 1) of
                 Inl err \<Rightarrow> Inl err
               | Inr p \<Rightarrow>
                   Inr (st\<lparr>event_grid := (\<lambda>k. if k \<in> Pt ` set new then Some e
                                                else event_grid st k),
                           perimeters := (perimeters st)
                             [nat (py_pos (length (perimeters st)) (e - 1)) :=
                                p\<lparr>coords := coords p @ map Pt new\<rparr>]\<rparr>))
            else Inr st)"
  using assms
  by (simp add: assign_burn_def add_event_grid_def grid_put_all_pts add_coordinates_def
        split: sum.splits)

lemma assign_burn_merge:
  assumes "partition_pts (event_grid st) cands [] [] = (e1 # e2 # others, new)"
  shows "assign_burn st cands = merge_perimeters st e1 e2"
  using assms by (simp add: assign_burn_def)

lemma assign_burn_cases:
  obtains (create) new where "partition_pts (event_grid st) cands [] [] = ([], new)"
  | (extend) e new where "partition_pts (event_grid st) cands [] [] = ([e], new)"
  | (merge) e1 e2 others new where
      "partition_pts (event_grid st) cands [] [] = (e1 # e2 # others, new)"
proof -
  obtain ids new where part: "partition_pts (event_grid st) cands [] [] = (ids, new)"
    by (cases "partition_pts (event_grid st) cands [] []") auto
  show thesis
  proof (cases ids)
    case Nil
    then show ?thesis using part create by simp
  next
    case (Cons e1 rest)
    then show ?thesis using part extend merge by (cases rest) auto
  qed
qed

lemma assign_burn_frame:
  assumes "assign_burn st cands = Inr st'"
  shows "next_event_id st \<le> next_event_id st' \<and>
         length (perimeters st) \<le> length (perimeters st') \<and>
         (\<forall>i < length (perimeters st). event_id (perimeters st' ! i) = event_id (perimeters st ! i))"
proof (cases st cands rule: assign_burn_cases)
  case (create new)
  then show ?thesis using assms
    by (auto simp: assign_burn_create nth_append)
next
  case (extend e new)
  then show ?thesis using assms
    by (auto simp: assign_burn_extend py_index_Inr nth_list_update split: sum.splits if_splits)
next
  case (merge e1 e2 others new)
  then have "merge_perimeters st e1 e2 = Inr st'"
    using assms by (simp add: assign_burn_merge)
  from merge_perimeters_frame[OF this] show ?thesis by simp
qed

lemma assign_burn_aligned:
  assumes "aligned st" "assign_burn st cands = Inr st'"
  shows "aligned st'"
proof (cases st cands rule: assign_burn_cases)
  case (create new)
  then show ?thesis using assms
    by (auto simp: assign_burn_create aligned_def nth_append)
next
  case (extend e new)
  then show ?thesis using assms
    by (auto simp: assign_burn_extend aligned_def py_index_Inr nth_list_update
             split: sum.splits if_splits)
next
  case (merge e1 e2 others new)
  then have "merge_perimeters st e1 e2 = Inr st'"
    using assms by (simp add: assign_burn_merge)
  from merge_perimeters_frame[OF this] show ?thesis using assms(1) by (simp add: aligned_def)
qed

lemma classifying_aligned: "classifying st \<Longrightarrow> aligned st"
proof (induction rule: classifying.induct)
  case start
  show ?case by (simp add: aligned_def fresh_state_def)
next
  case (step st cands st')
  then show ?case by (auto intro: assign_burn_aligned)
qed

lemma aligned_index:
  assumes "aligned st" "1 \<le> e" "e \<le> int (length (perimeters st))"
  shows "py_index (perimeters st) (e - 1) = Inr (perimeters st ! nat (e - 1))"
    and "event_id (perimeters st ! nat (e - 1)) = e"
    and "nat (py_pos (length (perimeters st)) (e - 1)) = nat (e - 1)"
  using assms by (auto simp: aligned_def py_index_def py_pos_def)

lemma grid_put_all_hashable:
  "\<forall>k \<in> set ks. hashable k \<Longrightarrow>
     grid_put_all eg ks e = Inr (\<lambda>k. if k \<in> set ks then Some e else eg k)"
proof (induction ks arbitrary: eg)
  case Nil
  then show ?case by simp
next
  case (Cons k ks)
  then show ?case by (auto simp: fun_eq_iff)
qed

lemma merge_perimeters_hashable:
  assumes "merge_perimeters st e ob_id = Inr st'" "py_index (perimeters st) (ob_id - 1) = Inr ob"
  shows "\<forall>k \<in> set (coords ob). hashable k"
  using assms
  by (auto simp: merge_perimeters_def Let_def split: sum.splits dest: grid_put_all_Inr)

lemma list_update_thrice:
  "i \<noteq> j \<Longrightarrow> xs[i := a, j := b, i := c] = xs[j := b, i := c]"
  by (simp add: list_update_swap[of i j])

lemma merge_perimeters_result:
  assumes ob: "py_index (perimeters st) (ob_id - 1) = Inr ob"
    and sv: "py_index (perimeters st) (e - 1) = Inr sv"
    and ne: "nat (py_pos (length (perimeters st)) (e - 1)) \<noteq>
             nat (py_pos (length (perimeters st)) (ob_id - 1))"
    and ha: "\<forall>k \<in> set (coords ob). hashable k"
  shows "merge_perimeters st e ob_id =
           Inr (st\<lparr>event_grid := (\<lambda>k. if k \<in> set (coords ob) then Some e else event_grid st k),
                   perimeters := (perimeters st)
                     [nat (py_pos (length (perimeters st)) (e - 1)) :=
                        sv\<lparr>coords := coords sv @ coords ob\<rparr>,
                      nat (py_pos (length (perimeters st)) (ob_id - 1)) :=
                        ob\<lparr>merge_id := Some e,
                           coords := [Str (''Merged with event '' @ show_int e), Lst (coords ob)]\<rparr>]\<rparr>)"
proof -
  let ?ps = "perimeters st"
  let ?io = "nat (py_pos (length ?ps) (ob_id - 1))"
  let ?is = "nat (py_pos (length ?ps) (e - 1))"
  let ?eg = "\<lambda>k. if k \<in> set (coords ob) then Some e else event_grid st k"
  have io: "?io < length ?ps" using ob by (auto simp: py_index_Inr)
  have isv: "?is < length ?ps" using sv by (auto simp: py_index_Inr)
  have sv1: "py_index (?ps[?io := ob\<lparr>merge_id := Some e\<rparr>]) (e - 1) = Inr sv"
    using sv ne by (auto simp: py_index_Inr)
  have g: "grid_put_all (event_grid st) (coords ob) e = Inr ?eg"
    by (rule grid_put_all_hashable[OF ha])
  have "merge_perimeters st e ob_id =
          Inr (st\<lparr>event_grid := ?eg,
                  perimeters := (?ps[?io := ob\<lparr>merge_id := Some e\<rparr>,
                                    ?is := sv\<lparr>coords := add_coordinates (coords sv) (coords ob)\<rparr>])
                    [?io := ((?ps[?io := ob\<lparr>merge_id := Some e\<rparr>,
                                    ?is := sv\<lparr>coords := add_coordinates (coords sv) (coords ob)\<rparr>]) ! ?io)
                       \<lparr>coords := [Str (''Merged with event '' @ show_int e), Lst (coords ob)]\<rparr>]\<rparr>)"
    unfolding merge_perimeters_def Let_def
    by (simp only: ob sum.case g sv1 ne if_False simp_thms)
  also have "(?ps[?io := ob\<lparr>merge_id := Some e\<rparr>,
                  ?is := sv\<lparr>coords := add_coordinates (coords sv) (coords ob)\<rparr>]) ! ?io =
             ob\<lparr>merge_id := Some e\<rparr>"
    using ne io by simp
  finally show ?thesis
    using ne by (simp add: add_coordinates_def list_update_thrice)
qed

lemma tombstoned_append:
  "tombstoned (p\<lparr>coords := coords p @ cs\<rparr>) =
     (if coords p = [] then (case cs of [] \<Rightarrow> False | c # _ \<Rightarrow> is_str c) else tombstoned p)"
  by (cases "coords p") (auto simp: tombstoned_def)

lemma grid_live_index:
  assumes "aligned st" "grid_live st" "event_grid st k = Some e"
  shows "1 \<le> e" "e \<le> int (length (perimeters st))"
    "\<not> tombstoned (perimeters st ! nat (e - 1))"
    "merge_id (perimeters st ! nat (e - 1)) = None"
    "k \<in> set (coords (perimeters st ! nat (e - 1)))"
proof -
  from assms(2,3) obtain p where p: "py_index (perimeters st) (e - 1) = Inr p" "event_id p = e"
    "\<not> tombstoned p" "merge_id p = None" "k \<in> set (coords p)"
    unfolding grid_live_def by blast
  let ?j = "nat (py_pos (length (perimeters st)) (e - 1))"
  have j: "?j < length (perimeters st)" "p = perimeters st ! ?j"
    and j0: "0 \<le> py_pos (length (perimeters st)) (e - 1)"
    using p(1) by (auto simp: py_index_Inr)
  then have "e = int ?j + 1" using assms(1) p(2) by (auto simp: aligned_def)
  then show "1 \<le> e" "e \<le> int (length (perimeters st))" using j(1) by linarith+
  have "nat (e - 1) = ?j" using \<open>e = int ?j + 1\<close> j0 by linarith
  then show "\<not> tombstoned (perimeters st ! nat (e - 1))"
    "merge_id (perimeters st ! nat (e - 1)) = None"
    "k \<in> set (coords (perimeters st ! nat (e - 1)))"
    using p j by auto
qed

lemma grid_liveI:
  assumes "aligned st"
    and "\<And>k e. event_grid st k = Some e \<Longrightarrow>
           1 \<le> e \<and> e \<le> int (length (perimeters st)) \<and>
           \<not> tombstoned (perimeters st ! nat (e - 1)) \<and>
           merge_id (perimeters st ! nat (e - 1)) = None \<and>
           k \<in> set (coords (perimeters st ! nat (e - 1)))"
  shows "grid_live st"
  unfolding grid_live_def
proof (intro allI impI)
  fix k e assume "event_grid st k = Some e"
  from assms(2)[OF this] aligned_index[OF assms(1), of e]
  show "\<exists>p. py_index (perimeters st) (e - 1) = Inr p \<and> event_id p = e \<and>
             \<not> tombstoned p \<and> merge_id p = None \<and> k \<in> set (coords p)"
    by auto
qed

lemma partition_ids_in_grid:
  assumes "partition_pts eg cands [] [] = (ids, new)" "e \<in> set ids"
  shows "\<exists>p. eg (Pt p) = Some e"
  using partition_pts_spec[OF assms(1)] assms(2) by auto

lemma assign_burn_grid_live:
  assumes al: "aligned st" and gl: "grid_live st" and ab: "assign_burn st cands = Inr st'"
  shows "grid_live st'"
proof (rule grid_liveI)
  show al': "aligned st'" using al ab by (rule assign_burn_aligned)
next
  fix k e assume ke: "event_grid st' k = Some e"
  let ?ps = "perimeters st"
  let ?n = "length ?ps"
  let ?goal = "1 \<le> e \<and> e \<le> int (length (perimeters st')) \<and>
           \<not> tombstoned (perimeters st' ! nat (e - 1)) \<and>
           merge_id (perimeters st' ! nat (e - 1)) = None \<and>
           k \<in> set (coords (perimeters st' ! nat (e - 1)))"
  show ?goal
  proof (cases st cands rule: assign_burn_cases)
    case (create new)
    from ab have st': "st' = \<lparr>event_grid = (\<lambda>k. if k \<in> Pt ` set new then Some (next_event_id st)
                                   else event_grid st k),
                next_event_id = next_event_id st + 1,
                perimeters = ?ps @
                  [\<lparr>event_id = next_event_id st, merge_id = None, coords = map Pt new\<rparr>]\<rparr>"
      by (simp add: assign_burn_create[OF create])
    show ?thesis
    proof (cases "k \<in> Pt ` set new")
      case True
      then have e: "e = int ?n + 1" using ke al by (simp add: st' aligned_def)
      have "\<not> tombstoned \<lparr>event_id = next_event_id st, merge_id = None, coords = map Pt new\<rparr>"
        by (cases new) (auto simp: tombstoned_def)
      then show ?thesis using True by (simp add: st' e)
    next
      case False
      then have "event_grid st k = Some e" using ke by (simp add: st')
      from grid_live_index[OF al gl this] show ?thesis
        by (simp add: st' nth_append nat_less_iff)
    qed
  next
    case (extend e0 new)
    obtain p0 where "event_grid st (Pt p0) = Some e0"
      using partition_ids_in_grid[OF extend, of e0] by auto
    note i0 = grid_live_index[OF al gl this]
    note a0 = aligned_index[OF al i0(1,2)]
    let ?j0 = "nat (e0 - 1)"
    have j0: "?j0 < ?n" using i0(1,2) by linarith
    show ?thesis
    proof (cases "new = []")
      case True
      then have "st' = st" using ab by (simp add: assign_burn_extend[OF extend])
      then show ?thesis using grid_live_index[OF al gl, of k e] ke by simp
    next
      case False
      then have st': "st' = st\<lparr>event_grid := (\<lambda>k. if k \<in> Pt ` set new then Some e0
                                                else event_grid st k),
                           perimeters := ?ps[?j0 := (?ps ! ?j0)\<lparr>coords := coords (?ps ! ?j0) @ map Pt new\<rparr>]\<rparr>"
        using ab by (simp add: assign_burn_extend[OF extend] a0)
      have nt: "\<not> tombstoned ((?ps ! ?j0)\<lparr>coords := coords (?ps ! ?j0) @ map Pt new\<rparr>)"
        using i0(3) False by (cases new) (auto simp: tombstoned_append)
      show ?thesis
      proof (cases "k \<in> Pt ` set new")
        case True
        then have "e = e0" using ke by (simp add: st')
        then show ?thesis using True i0 j0 nt by (simp add: st')
      next
        case False
        then have "event_grid st k = Some e" using ke by (simp add: st')
        note i = grid_live_index[OF al gl this]
        show ?thesis
        proof (cases "nat (e - 1) = ?j0")
          case True
          then show ?thesis using i i0 j0 nt by (simp add: st')
        next
          case False
          then show ?thesis using i by (simp add: st')
        qed
      qed
    qed
  next
    case (merge e1 e2 others new)
    have d: "distinct (e1 # e2 # others)"
      using partition_pts_spec[OF merge] by simp
    obtain p1 where "event_grid st (Pt p1) = Some e1"
      using partition_ids_in_grid[OF merge, of e1] by auto
    note i1 = grid_live_index[OF al gl this]
    obtain p2 where "event_grid st (Pt p2) = Some e2"
      using partition_ids_in_grid[OF merge, of e2] by auto
    note i2 = grid_live_index[OF al gl this]
    note a1 = aligned_index[OF al i1(1,2)]
    note a2 = aligned_index[OF al i2(1,2)]
    let ?j1 = "nat (e1 - 1)"
    let ?j2 = "nat (e2 - 1)"
    let ?sv = "?ps ! ?j1"
    let ?ob = "?ps ! ?j2"
    have j: "?j1 < ?n" "?j2 < ?n" "?j1 \<noteq> ?j2" using i1(1,2) i2(1,2) d by auto
    have m: "merge_perimeters st e1 e2 = Inr st'"
      using ab by (simp add: assign_burn_merge[OF merge])
    have ha: "\<forall>k \<in> set (coords ?ob). hashable k"
      using m a2(1) by (rule merge_perimeters_hashable)
    have st': "st' = st\<lparr>event_grid := (\<lambda>k. if k \<in> set (coords ?ob) then Some e1 else event_grid st k),
                   perimeters := ?ps[?j1 := ?sv\<lparr>coords := coords ?sv @ coords ?ob\<rparr>,
                      ?j2 := ?ob\<lparr>merge_id := Some e1,
                           coords := [Str (''Merged with event '' @ show_int e1), Lst (coords ?ob)]\<rparr>]\<rparr>"
      using merge_perimeters_result[OF a2(1) a1(1) _ ha] m j(3) by (simp add: a1 a2)
    have obne: "coords ?ob \<noteq> []" using i2(5) by auto
    have nt: "\<not> tombstoned (?sv\<lparr>coords := coords ?sv @ coords ?ob\<rparr>)"
      using i1(3) i2(3) obne
      by (cases "coords ?ob"; cases "coords ?sv") (auto simp: tombstoned_def)
    show ?thesis
    proof (cases "k \<in> set (coords ?ob)")
      case True
      then have "e = e1" using ke by (simp add: st')
      then show ?thesis using True i1 j nt by (simp add: st')
    next
      case False
      then have g: "event_grid st k = Some e" using ke by (simp add: st')
      note i = grid_live_index[OF al gl g]
      have ne2: "nat (e - 1) \<noteq> ?j2" using i(5) False by auto
      show ?thesis
      proof (cases "nat (e - 1) = ?j1")
        case True
        then show ?thesis using i i1 j nt ne2 by (simp add: st')
      next
        case False
        then show ?thesis using i ne2 by (simp add: st')
      qed
    qed
  qed
qed

lemma classifying_grid_live: "classifying st \<Longrightarrow> grid_live st"
proof (induction rule: classifying.induct)
  case start
  show ?case by (simp add: grid_live_def fresh_state_def)
next
  case (step st cands st')
  then show ?case using classifying_aligned assign_burn_grid_live by blast
qed

section \<open>Proofs: classification runs\<close>

lemma assign_burns_classifying:
  "classifying st \<Longrightarrow> assign_burns tp g window origin burns st = Inr st' \<Longrightarrow> classifying st'"
proof (induction burns arbitrary: st)
  case Nil
  then show ?case by simp
next
  case (Cons burn burns)
  from Cons.prems(2) obtain cands st1 where
    "assign_burn st cands = Inr st1" "assign_burns tp g window origin burns st1 = Inr st'"
    by (auto split: sum.splits)
  then show ?case using Cons.IH Cons.prems(1) classifying.step by blast
qed

lemma process_cell_classifying:
  "classifying st \<Longrightarrow> process_cell sp tp g pair st = Inr st' \<Longrightarrow> classifying st'"
  by (auto simp: process_cell_def Let_def split: sum.splits dest: assign_burns_classifying)

lemma process_cells_classifying:
  "classifying st \<Longrightarrow> process_cells sp tp g pairs st = Inr st' \<Longrightarrow> classifying st'"
proof (induction pairs arbitrary: st)
  case Nil
  then show ?case by simp
next
  case (Cons pair pairs)
  from Cons.prems(2) obtain st1 where
    "process_cell sp tp g pair st = Inr st1" "process_cells sp tp g pairs st1 = Inr st'"
    by (auto split: sum.splits)
  then show ?case using Cons.IH Cons.prems(1) process_cell_classifying by blast
qed

lemma get_event_perimeters_classifying:
  assumes "get_event_perimeters sp tp g (Map.empty, 1) = Inr st"
  shows "classifying st"
proof -
  from assms obtain pairs where "process_cells sp tp g pairs fresh_state = Inr st"
    by (auto simp: get_event_perimeters_def fresh_state_def split: sum.splits)
  then show ?thesis using classifying.start process_cells_classifying by blast
qed

lemma merge_tile_result:
  "\<exists>st. get_event_perimeters 1 1 merge_tile (Map.empty, 1) = Inr st \<and>
        next_event_id st = 5 \<and>
        event_grid st (Pt (1, 1, 12)) = None \<and>
        event_grid st (Pt (2, 3, 11)) = Some 1 \<and>
        event_grid st (Pt (1, 3, 13)) = Some 1 \<and>
        perimeters st =
         [\<lparr>event_id = 1, merge_id = None,
           coords = [Pt (3, 1, 11), Pt (2, 2, 11), Pt (3, 4, 11), Pt (2, 3, 11),
                     Pt (2, 1, 14), Pt (1, 2, 13), Pt (2, 4, 14), Pt (1, 3, 13)]\<rparr>,
          \<lparr>event_id = 2, merge_id = Some 1,
           coords = [Str ''Merged with event 1'', Lst [Pt (3, 4, 11), Pt (2, 3, 11)]]\<rparr>,
          \<lparr>event_id = 3, merge_id = Some 1,
           coords = [Str ''Merged with event 1'', Lst [Pt (2, 1, 14), Pt (1, 2, 13)]]\<rparr>,
          \<lparr>event_id = 4, merge_id = Some 1,
           coords = [Str ''Merged with event 1'', Lst [Pt (2, 4, 14), Pt (1, 3, 13)]]\<rparr>]"
proof -
  have "case get_event_perimeters 1 1 merge_tile (Map.empty, 1) of
     Inl e \<Rightarrow> False
   | Inr st \<Rightarrow>
       next_event_id st = 5 \<and>
       event_grid st (Pt (1, 1, 12)) = None \<and>
       event_grid st (Pt (2, 3, 11)) = Some 1 \<and>
       event_grid st (Pt (1, 3, 13)) = Some 1 \<and>
       perimeters st =
         [\<lparr>event_id = 1, merge_id = None,
           coords = [Pt (3, 1, 11), Pt (2, 2, 11), Pt (3, 4, 11), Pt (2, 3, 11),
                     Pt (2, 1, 14), Pt (1, 2, 13), Pt (2, 4, 14), Pt (1, 3, 13)]\<rparr>,
          \<lparr>event_id = 2, merge_id = Some 1,
           coords = [Str ''Merged with event 1'', Lst [Pt (3, 4, 11), Pt (2, 3, 11)]]\<rparr>,
          \<lparr>event_id = 3, merge_id = Some 1,
           coords = [Str ''Merged with event 1'', Lst [Pt (2, 1, 14), Pt (1, 2, 13)]]\<rparr>,
          \<lparr>event_id = 4, merge_id = Some 1,
           coords = [Str ''Merged with event 1'', Lst [Pt (2, 4, 14), Pt (1, 3, 13)]]\<rparr>]"
    by code_simp
  then show ?thesis by (cases "get_event_perimeters 1 1 merge_tile (Map.empty, 1)") simp_all
qed

text \<open>
  Claim C9: in every state that classification passes through, the perimeter list is
  aligned with the event ids: the perimeter at index \<open>i\<close> has the id \<open>i + 1\<close> and the next
  id is one more than the number of perimeters, so \<open>perimeters[e - 1]\<close> addresses the
  perimeter with the id \<open>e\<close>; a detection step never lowers the next id, never shortens
  the list and never changes the id at an existing position, so ids are not reused and
  tombstoned perimeters stay where they are.
\<close>

theorem perimeter_list_aligned:
  assumes "classifying st"
  shows "aligned st \<and>
         (\<forall>e. 1 \<le> e \<and> e \<le> int (length (perimeters st)) \<longrightarrow>
              py_index (perimeters st) (e - 1) = Inr (perimeters st ! nat (e - 1)) \<and>
              event_id (perimeters st ! nat (e - 1)) = e) \<and>
         (\<forall>cands st'. assign_burn st cands = Inr st' \<longrightarrow>
              next_event_id st \<le> next_event_id st' \<and>
              length (perimeters st) \<le> length (perimeters st') \<and>
              (\<forall>i < length (perimeters st).
                 event_id (perimeters st' ! i) = event_id (perimeters st ! i)))"
proof -
  have al: "aligned st" using assms by (rule classifying_aligned)
  have ix: "\<forall>e. 1 \<le> e \<and> e \<le> int (length (perimeters st)) \<longrightarrow>
              py_index (perimeters st) (e - 1) = Inr (perimeters st ! nat (e - 1)) \<and>
              event_id (perimeters st ! nat (e - 1)) = e"
    using aligned_index[OF al] by blast
  have fr: "\<forall>cands st'. assign_burn st cands = Inr st' \<longrightarrow>
              next_event_id st \<le> next_event_id st' \<and>
              length (perimeters st) \<le> length (perimeters st') \<and>
              (\<forall>i < length (perimeters st).
                 event_id (perimeters st' ! i) = event_id (perimeters st ! i))"
    using assign_burn_frame by blast
  show ?thesis using al ix fr by blast
qed

theorem perimeter_list_aligned_witness:
  "\<exists>st. get_event_perimeters 1 1 merge_tile (Map.empty, 1) = Inr st \<and>
        map event_id (perimeters st) = [1, 2, 3, 4] \<and> next_event_id st = 5 \<and>
        map tombstoned (perimeters st) = [False, True, True, True] \<and> aligned st"
proof -
  from merge_tile_result obtain st where
    st: "get_event_perimeters 1 1 merge_tile (Map.empty, 1) = Inr st"
    and r: "map event_id (perimeters st) = [1, 2, 3, 4]" "next_event_id st = 5"
      "map tombstoned (perimeters st) = [False, True, True, True]"
    by (auto simp: tombstoned_def)
  have "classifying st" using st by (rule get_event_perimeters_classifying)
  from perimeter_list_aligned[OF this] have "aligned st" by (rule conjunct1)
  with st r show ?thesis by (intro exI[of _ st]) simp
qed

text \<open>
  Claim C4: in every state that classification passes through (the fresh state and
  the state after each create, extend or merge step), every key of the event grid maps
  to the id of a perimeter that is in the list at \<open>id - 1\<close>, is not tombstoned, has no
  merge id and holds the key among its points. Every state that
  \<open>get_event_perimeters\<close> returns on a fresh \<open>EventGrid\<close> is such a state
  (\<open>get_event_perimeters_classifying\<close>).
\<close>

theorem event_grid_points_live:
  assumes "classifying st"
  shows "grid_live st"
  using assms by (rule classifying_grid_live)

theorem event_grid_points_live_witness:
  "\<exists>st. get_event_perimeters 1 1 merge_tile (Map.empty, 1) = Inr st \<and>
        event_grid st (Pt (2, 3, 11)) = Some 1 \<and> event_grid st (Pt (1, 3, 13)) = Some 1 \<and>
        grid_live st"
proof -
  from merge_tile_result obtain st where
    st: "get_event_perimeters 1 1 merge_tile (Map.empty, 1) = Inr st"
    and r: "event_grid st (Pt (2, 3, 11)) = Some 1" "event_grid st (Pt (1, 3, 13)) = Some 1"
    by auto
  have "classifying st" using st by (rule get_event_perimeters_classifying)
  from event_grid_points_live[OF this] have "grid_live st" .
  with st r show ?thesis by (intro exI[of _ st]) simp
qed

lemma py_index_update:
  assumes "0 \<le> py_pos n j" "nat (py_pos n j) < n" "length xs = n"
  shows "py_index (xs[nat (py_pos n j) := v]) j = Inr v"
  using assms by (simp add: py_index_def)

lemma merge_perimeters_tombstones:
  assumes "merge_perimeters st0 eid0 obsolete_id = Inr st"
  shows "\<exists>ob notice pts. py_index (perimeters st) (obsolete_id - 1) = Inr ob \<and>
           coords ob = [Str notice, Lst pts]"
proof -
  let ?ps = "perimeters st0"
  let ?io = "nat (py_pos (length ?ps) (obsolete_id - 1))"
  let ?is = "nat (py_pos (length ?ps) (eid0 - 1))"
  let ?notice = "''Merged with event '' @ show_int eid0"
  obtain ob where ob: "py_index ?ps (obsolete_id - 1) = Inr ob"
    using assms by (cases "py_index ?ps (obsolete_id - 1)") (simp_all add: merge_perimeters_def)
  let ?ps1 = "?ps[?io := ob\<lparr>merge_id := Some eid0\<rparr>]"
  obtain eg where eg: "grid_put_all (event_grid st0) (coords ob) eid0 = Inr eg"
    using assms ob
    by (cases "grid_put_all (event_grid st0) (coords ob) eid0")
       (simp_all add: merge_perimeters_def Let_def)
  obtain sv where sv: "py_index ?ps1 (eid0 - 1) = Inr sv"
    using assms ob eg
    by (cases "py_index ?ps1 (eid0 - 1)") (simp_all add: merge_perimeters_def Let_def)
  define ps2 where "ps2 = ?ps1[?is := sv\<lparr>coords := add_coordinates (coords sv) (coords ob)\<rparr>]"
  have len: "length ps2 = length ?ps" by (simp add: ps2_def)
  have st: "perimeters st = ps2[?io := (ps2 ! ?io)\<lparr>coords := [Str ?notice, Lst (coords ob)]\<rparr>]"
    unfolding ps2_def using assms ob eg sv
    by (cases "?is = ?io \<and> coords ob \<noteq> []")
       (auto simp add: merge_perimeters_def Let_def simp del: list_update_overwrite)
  have io: "0 \<le> py_pos (length ?ps) (obsolete_id - 1)" "?io < length ?ps"
    using ob by (auto simp: py_index_Inr)
  have "py_index (perimeters st) (obsolete_id - 1) =
          Inr ((ps2 ! ?io)\<lparr>coords := [Str ?notice, Lst (coords ob)]\<rparr>)"
    unfolding st by (rule py_index_update[OF io len])
  then show ?thesis by auto
qed

text \<open>
  Claim C2: when the obsolete id addresses a perimeter that is tombstoned (its
  \<open>coords\<close> are the notice string followed by the list of its former points),
  \<open>merge_perimeters\<close> raises \<open>TypeError\<close>, whatever the surviving id is: the list is
  not hashable and cannot be a key of the event grid. In particular, after any merge
  that returned, a second merge with the same obsolete id raises. No state is returned.
\<close>

theorem merge_tombstoned_raises:
  "(py_index (perimeters st) (obsolete_id - 1) = Inr ob \<and>
    coords ob = Str notice # Lst pts # rest \<longrightarrow>
      merge_perimeters st eid obsolete_id = Inl TypeError) \<and>
   (merge_perimeters st0 eid0 obsolete_id = Inr st \<longrightarrow>
      merge_perimeters st eid obsolete_id = Inl TypeError)"
proof (intro conjI impI)
  assume "py_index (perimeters st) (obsolete_id - 1) = Inr ob \<and>
    coords ob = Str notice # Lst pts # rest"
  then show "merge_perimeters st eid obsolete_id = Inl TypeError"
    by (simp add: merge_perimeters_def Let_def)
next
  assume "merge_perimeters st0 eid0 obsolete_id = Inr st"
  from merge_perimeters_tombstones[OF this] show "merge_perimeters st eid obsolete_id = Inl TypeError"
    by (auto simp: merge_perimeters_def Let_def)
qed

theorem merge_tombstoned_raises_witness:
  "\<exists>st. merge_perimeters two_events 1 2 = Inr st \<and>
        perimeters st =
          [\<lparr>event_id = 1, merge_id = None, coords = [Pt (3, 1, 11), Pt (3, 4, 20)]\<rparr>,
           \<lparr>event_id = 2, merge_id = Some 1,
             coords = [Str ''Merged with event 1'', Lst [Pt (3, 4, 20)]]\<rparr>] \<and>
        merge_perimeters st 1 2 = Inl TypeError"
proof -
  have "case merge_perimeters two_events 1 2 of Inl e \<Rightarrow> False
        | Inr st \<Rightarrow> perimeters st =
          [\<lparr>event_id = 1, merge_id = None, coords = [Pt (3, 1, 11), Pt (3, 4, 20)]\<rparr>,
           \<lparr>event_id = 2, merge_id = Some 1,
             coords = [Str ''Merged with event 1'', Lst [Pt (3, 4, 20)]]\<rparr>]"
    by code_simp
  then obtain st where st: "merge_perimeters two_events 1 2 = Inr st"
    "perimeters st =
          [\<lparr>event_id = 1, merge_id = None, coords = [Pt (3, 1, 11), Pt (3, 4, 20)]\<rparr>,
           \<lparr>event_id = 2, merge_id = Some 1,
             coords = [Str ''Merged with event 1'', Lst [Pt (3, 4, 20)]]\<rparr>]"
    by (auto split: sum.splits)
  let ?ob = "\<lparr>event_id = 2, merge_id = Some 1,
             coords = [Str ''Merged with event 1'', Lst [Pt (3, 4, 20)]]\<rparr>"
  have ob: "py_index (perimeters st) (2 - 1) = Inr ?ob \<and>
            coords ?ob = Str ''Merged with event 1'' # Lst [Pt (3, 4, 20)] # []"
    by (simp add: st(2) py_index_def py_pos_def)
  note t = merge_tombstoned_raises[of st 2 ?ob "''Merged with event 1''" "[Pt (3, 4, 20)]" "[]"
      1 two_events 1]
  have "merge_perimeters st 1 2 = Inl TypeError" using t ob by blast
  moreover have "merge_perimeters st 1 2 = Inl TypeError" using t st(1) by blast
  ultimately show ?thesis using st by (intro exI[of _ st]) simp
qed

text \<open>
  Claim C10: candidate selection does not test the window values for positivity. On
  the tile \<open>early_tile\<close>, whose only detection is on day 5 (at most
  \<open>temporal_param = 11\<close>), the neighbouring cell without detection is within 11 of the
  burn day, and the point with its coordinates and the day value 0 is put into the
  perimeter of event 1 and into the event grid.
\<close>

theorem zero_cell_becomes_event_point:
  "case get_event_perimeters 5 11 early_tile (Map.empty, 1) of
     Inl e \<Rightarrow> False
   | Inr st \<Rightarrow>
       perimeters st =
         [\<lparr>event_id = 1, merge_id = None, coords = [Pt (10, 20, 5), Pt (10, 21, 0)]\<rparr>] \<and>
       event_grid st (Pt (10, 21, 0)) = Some 1"
  by code_simp

text \<open>
  Claim C1 at the tile \<open>merge_tile\<close> (\<open>spatial_param = 1\<close>, \<open>temporal_param = 1\<close>). The
  detection of day 12 at row 2, column 0 (the point \<open>(1, 1, 12)\<close>) is a new candidate
  point of three detection steps, those of the cells \<open>(1, 1)\<close>, \<open>(2, 0)\<close> and \<open>(2, 1)\<close>.
  Each of them finds two event ids and merges them, and none adds the new point: at the
  end the point is in no perimeter and has no entry in the event grid. The merges
  themselves are as the claim says: the points of the obsolete perimeters 2, 3 and 4 are
  appended to perimeter 1, and the three are tombstoned.
\<close>

theorem merge_branch_drops_new_points:
  "case get_event_perimeters 1 1 merge_tile (Map.empty, 1) of
     Inl e \<Rightarrow> False
   | Inr st \<Rightarrow>
       event_grid st (Pt (1, 1, 12)) = None \<and>
       perimeters st =
         [\<lparr>event_id = 1, merge_id = None,
           coords = [Pt (3, 1, 11), Pt (2, 2, 11), Pt (3, 4, 11), Pt (2, 3, 11),
                     Pt (2, 1, 14), Pt (1, 2, 13), Pt (2, 4, 14), Pt (1, 3, 13)]\<rparr>,
          \<lparr>event_id = 2, merge_id = Some 1,
           coords = [Str ''Merged with event 1'', Lst [Pt (3, 4, 11), Pt (2, 3, 11)]]\<rparr>,
          \<lparr>event_id = 3, merge_id = Some 1,
           coords = [Str ''Merged with event 1'', Lst [Pt (2, 1, 14), Pt (1, 2, 13)]]\<rparr>,
          \<lparr>event_id = 4, merge_id = Some 1,
           coords = [Str ''Merged with event 1'', Lst [Pt (2, 4, 14), Pt (1, 3, 13)]]\<rparr>]"
proof -
  from merge_tile_result obtain st where
    "get_event_perimeters 1 1 merge_tile (Map.empty, 1) = Inr st"
    "event_grid st (Pt (1, 1, 12)) = None"
    "perimeters st =
         [\<lparr>event_id = 1, merge_id = None,
           coords = [Pt (3, 1, 11), Pt (2, 2, 11), Pt (3, 4, 11), Pt (2, 3, 11),
                     Pt (2, 1, 14), Pt (1, 2, 13), Pt (2, 4, 14), Pt (1, 3, 13)]\<rparr>,
          \<lparr>event_id = 2, merge_id = Some 1,
           coords = [Str ''Merged with event 1'', Lst [Pt (3, 4, 11), Pt (2, 3, 11)]]\<rparr>,
          \<lparr>event_id = 3, merge_id = Some 1,
           coords = [Str ''Merged with event 1'', Lst [Pt (2, 1, 14), Pt (1, 2, 13)]]\<rparr>,
          \<lparr>event_id = 4, merge_id = Some 1,
           coords = [Str ''Merged with event 1'', Lst [Pt (2, 4, 14), Pt (1, 3, 13)]]\<rparr>]"
    by blast
  then show ?thesis by simp
qed

section \<open>Proofs: the per-tile event table\<close>

lemma perimeter_rows_uniform:
  "perimeter_rows ye xe buf eid pts =
     map (\<lambda>c. \<lparr>r_id = eid, r_date = snd (snd c), r_x = fst (snd c), r_y = fst c,
                r_edge = (\<exists>c' \<in> set pts. edgeCheck ye xe c' buf)\<rparr>) pts"
proof (cases "\<exists>c' \<in> set pts. edgeCheck ye xe c' buf")
  case True
  then show ?thesis
    by (simp add: perimeter_rows_def Let_def list_ex_iff zip_map2 zip_same_conv_map comp_def)
next
  case False
  then have "map (\<lambda>c. edgeCheck ye xe c buf) pts = map (\<lambda>c. False) pts" by simp
  then show ?thesis using False
    by (simp add: perimeter_rows_def Let_def list_ex_iff zip_map2 zip_same_conv_map comp_def)
qed

lemma live_perimeters_subset:
  "live_perimeters perims = Inr kept \<Longrightarrow>
     set kept \<subseteq> set perims \<and> (distinct (map event_id perims) \<longrightarrow> distinct (map event_id kept))"
proof (induction perims arbitrary: kept)
  case Nil
  then show ?case by simp
next
  case (Cons p perims)
  from Cons.prems obtain c cs k where k: "coords p = c # cs" "live_perimeters perims = Inr k"
    "kept = (if is_str c then k else p # k)"
    by (auto split: list.splits sum.splits)
  from Cons.IH[OF k(2)] show ?case using k(3) by auto
qed

lemma edgeCheck_iff:
  "edgeCheck ye xe c buf \<longleftrightarrow> fst c \<in> set ye \<or> fst (snd c) \<in> set xe"
  by (auto simp: edgeCheck_def Let_def)

lemma table_rows_spec:
  assumes "table_rows ye xe buf plist = Inr rowss" "distinct (map fst plist)"
  shows "(\<forall>r \<in> set (concat rowss). r_id r \<in> fst ` set plist) \<and>
         (\<forall>r \<in> set (concat rowss).
            r_edge r = (\<exists>r' \<in> set (concat rowss). r_id r' = r_id r \<and>
                          edgeCheck ye xe (r_y r', r_x r', r_date r') buf))"
  using assms
proof (induction plist arbitrary: rowss)
  case Nil
  then show ?case by simp
next
  case (Cons p plist)
  from Cons.prems(1) obtain pts rest where
    pts: "entry_points (snd p) = Inr pts" and rest: "table_rows ye xe buf plist = Inr rest"
    and rowss: "rowss = perimeter_rows ye xe buf (fst p) pts # rest"
    by (auto split: sum.splits)
  have d: "distinct (map fst plist)" "fst p \<notin> fst ` set plist"
    using Cons.prems(2) by auto
  define M where "M = set (perimeter_rows ye xe buf (fst p) pts)"
  define R where "R = set (concat rest)"
  define E where "E = (\<lambda>r :: tile_row. edgeCheck ye xe (r_y r, r_x r, r_date r) buf)"
  have all: "set (concat rowss) = M \<union> R"
    by (simp add: rowss M_def R_def)
  have ih1: "\<forall>r \<in> R. r_id r \<in> fst ` set plist"
    and ih2: "\<forall>r \<in> R. r_edge r = (\<exists>r' \<in> R. r_id r' = r_id r \<and> E r')"
    using Cons.IH[OF rest d(1)] unfolding R_def E_def by blast+
  have mine_id: "\<forall>r \<in> M. r_id r = fst p"
    by (auto simp: M_def perimeter_rows_uniform)
  have mine_edge: "\<forall>r \<in> M. r_edge r = (\<exists>r' \<in> M. E r')"
    unfolding M_def E_def perimeter_rows_uniform by (auto simp: image_iff)
  have rest_id: "\<forall>r \<in> R. r_id r \<noteq> fst p"
    using ih1 d(2) by metis
  have 1: "\<forall>r \<in> M \<union> R. r_id r \<in> fst ` set (p # plist)"
    using mine_id ih1 by auto
  have 2: "\<forall>r \<in> M \<union> R. r_edge r = (\<exists>r' \<in> M \<union> R. r_id r' = r_id r \<and> E r')"
  proof
    fix r assume "r \<in> M \<union> R"
    then consider (mine) "r \<in> M" | (other) "r \<in> R" by auto
    then show "r_edge r = (\<exists>r' \<in> M \<union> R. r_id r' = r_id r \<and> E r')"
    proof cases
      case mine
      then have "(\<exists>r' \<in> M \<union> R. r_id r' = r_id r \<and> E r') = (\<exists>r' \<in> M. E r')"
        using mine_id rest_id by (metis Un_iff)
      then show ?thesis using mine mine_edge by simp
    next
      case other
      then have "(\<exists>r' \<in> M \<union> R. r_id r' = r_id r \<and> E r') = (\<exists>r' \<in> R. r_id r' = r_id r \<and> E r')"
        using mine_id rest_id by (metis Un_iff)
      then show ?thesis using other ih2 by simp
    qed
  qed
  show ?case using 1 2 unfolding all E_def by blast
qed

lemma edge_coords_first_last:
  assumes "0 < sp"
  shows "edge_coords sp ys xs =
           (take sp ys @ drop (length ys - sp) ys, drop (length xs - sp) xs @ take sp xs)"
proof -
  have a: "py_slice zs 0 (int sp) = take sp zs" for zs :: "real list"
    by (simp add: py_slice_def py_bound_def min_def)
  have b: "py_slice_from zs (- int sp) = drop (length zs - sp) zs" for zs :: "real list"
    using assms by (auto simp: py_slice_from_def py_bound_def max_def nat_diff_distrib')
  show ?thesis by (simp add: edge_coords_def a b)
qed

text \<open>
  Claim C6, as the code has it. In the table of a tile, built from perimeters with
  distinct ids, the edge flag of a row is true exactly when some row of the same event
  has its \<open>y\<close> coordinate among the edge values of the \<open>y\<close> axis or its \<open>x\<close> coordinate
  among the edge values of the \<open>x\<close> axis: the flag marks the whole event. For a positive
  \<open>spatial_param\<close> the edge values are the first and the last \<open>spatial_param\<close> values
  of the axis.
\<close>

theorem edge_flag_marks_whole_event:
  assumes "tile_table sp sp_buf g perims = Inr rows" "distinct (map event_id perims)"
  shows "(\<forall>r \<in> set rows.
           r_edge r =
             (\<exists>r' \<in> set rows. r_id r' = r_id r \<and>
                (r_y r' \<in> set (fst (edge_coords sp (bg_ys g) (bg_xs g))) \<or>
                 r_x r' \<in> set (snd (edge_coords sp (bg_ys g) (bg_xs g)))))) \<and>
         (0 < sp \<longrightarrow>
          edge_coords sp (bg_ys g) (bg_xs g) =
            (take sp (bg_ys g) @ drop (length (bg_ys g) - sp) (bg_ys g),
             drop (length (bg_xs g) - sp) (bg_xs g) @ take sp (bg_xs g)))"
proof -
  obtain ye xe where e: "edge_coords sp (bg_ys g) (bg_xs g) = (ye, xe)"
    by (cases "edge_coords sp (bg_ys g) (bg_xs g)") auto
  from assms(1) obtain live rowss where
    live: "live_perimeters perims = Inr live"
    and tr: "table_rows ye xe sp_buf (map (\<lambda>p. (event_id p, coords p)) live) = Inr rowss"
    and rows: "rows = concat rowss"
    by (auto simp: tile_table_def Let_def e split: sum.splits)
  have "distinct (map event_id live)"
    using live_perimeters_subset[OF live] assms(2) by simp
  then have "distinct (map fst (map (\<lambda>p. (event_id p, coords p)) live))"
    by (simp add: comp_def)
  from table_rows_spec[OF tr this]
  have 1: "\<forall>r \<in> set rows.
           r_edge r =
             (\<exists>r' \<in> set rows. r_id r' = r_id r \<and>
                (r_y r' \<in> set (fst (edge_coords sp (bg_ys g) (bg_xs g))) \<or>
                 r_x r' \<in> set (snd (edge_coords sp (bg_ys g) (bg_xs g)))))"
    unfolding rows e edgeCheck_iff fst_conv snd_conv by blast
  have 2: "0 < sp \<longrightarrow>
         edge_coords sp (bg_ys g) (bg_xs g) =
           (take sp (bg_ys g) @ drop (length (bg_ys g) - sp) (bg_ys g),
            drop (length (bg_xs g) - sp) (bg_xs g) @ take sp (bg_xs g))"
    by (simp add: edge_coords_first_last)
  show ?thesis using 1 2 by (rule conjI)
qed

text \<open>
  Claim C6 as stated fails: with \<open>spatial_param = 1\<close> on a \<open>5 \<times> 5\<close> tile the event
  with the points \<open>(5, 3)\<close> (first row of the tile) and \<open>(3, 3)\<close> (the centre of the tile)
  gets the edge flag on both rows, although \<open>edgeCheck\<close> is false for the centre point.
\<close>

theorem interior_point_of_edge_event_flagged:
  "tile_table 1 1 edge_tile
     [\<lparr>event_id = 1, merge_id = None, coords = [Pt (5, 3, 100), Pt (3, 3, 101)]\<rparr>] =
   Inr [\<lparr>r_id = 1, r_date = 100, r_x = 3, r_y = 5, r_edge = True\<rparr>,
        \<lparr>r_id = 1, r_date = 101, r_x = 3, r_y = 3, r_edge = True\<rparr>] \<and>
   edge_coords 1 (bg_ys edge_tile) (bg_xs edge_tile) = ([5, 1], [5, 1]) \<and>
   edgeCheck [5, 1] [5, 1] (3, 3, 101) 1 = False"
  by code_simp

theorem edge_flag_marks_whole_event_witness:
  "tile_table 1 1 edge_tile
     [\<lparr>event_id = 1, merge_id = None, coords = [Pt (5, 3, 100), Pt (3, 3, 101)]\<rparr>,
      \<lparr>event_id = 2, merge_id = Some 1,
        coords = [Str ''Merged with event 1'', Lst [Pt (3, 2, 90)]]\<rparr>,
      \<lparr>event_id = 3, merge_id = None, coords = [Pt (2, 2, 300)]\<rparr>] =
   Inr [\<lparr>r_id = 1, r_date = 100, r_x = 3, r_y = 5, r_edge = True\<rparr>,
        \<lparr>r_id = 1, r_date = 101, r_x = 3, r_y = 3, r_edge = True\<rparr>,
        \<lparr>r_id = 3, r_date = 300, r_x = 2, r_y = 2, r_edge = False\<rparr>] \<and>
   edge_coords 1 (bg_ys edge_tile) (bg_xs edge_tile) =
     (take 1 (bg_ys edge_tile) @ drop (length (bg_ys edge_tile) - 1) (bg_ys edge_tile),
      drop (length (bg_xs edge_tile) - 1) (bg_xs edge_tile) @ take 1 (bg_xs edge_tile))"
proof -
  let ?ps = "[\<lparr>event_id = 1, merge_id = None, coords = [Pt (5, 3, 100), Pt (3, 3, 101)]\<rparr>,
      \<lparr>event_id = 2, merge_id = Some 1,
        coords = [Str ''Merged with event 1'', Lst [Pt (3, 2, 90)]]\<rparr>,
      \<lparr>event_id = 3, merge_id = None, coords = [Pt (2, 2, 300)]\<rparr>]"
  let ?rows = "[\<lparr>r_id = 1, r_date = 100, r_x = 3, r_y = 5, r_edge = True\<rparr>,
        \<lparr>r_id = 1, r_date = 101, r_x = 3, r_y = 3, r_edge = True\<rparr>,
        \<lparr>r_id = 3, r_date = 300, r_x = 2, r_y = 2, r_edge = False\<rparr>]"
  have t: "tile_table 1 1 edge_tile ?ps = Inr ?rows"
    by code_simp
  have d: "distinct (map event_id ?ps)"
    by simp
  from edge_flag_marks_whole_event[OF t d] t show ?thesis
    by simp
qed

section \<open>Proofs: the tile stitcher\<close>

lemma unique_foldl:
  "\<exists>more. foldl (\<lambda>seen x. if x \<in> set seen then seen else seen @ [x]) acc xs = acc @ more \<and>
          set (acc @ more) = set acc \<union> set xs"
proof (induction xs arbitrary: acc)
  case Nil
  then show ?case by simp
next
  case (Cons x xs)
  let ?acc = "if x \<in> set acc then acc else acc @ [x]"
  from Cons.IH[of ?acc] obtain more where
    m: "foldl (\<lambda>seen x. if x \<in> set seen then seen else seen @ [x]) ?acc xs = ?acc @ more"
       "set (?acc @ more) = set ?acc \<union> set xs"
    by blast
  show ?case
  proof (cases "x \<in> set acc")
    case True
    then show ?thesis using m by (intro exI[of _ more]) auto
  next
    case False
    then show ?thesis using m by (intro exI[of _ "x # more"]) auto
  qed
qed


lemma unique_Cons: "\<exists>more. unique (x # xs) = x # more"
  using unique_foldl[of "[x]" xs] by (auto simp: unique_def)




































text \<open>
  Claim C7 at the table \<open>same_row_pair\<close> (\<open>temporal_param = 11\<close>, buffer 5): a detection
  of day 50 at the last column of one tile and a detection of day 52 at the first
  column of the next tile, in the same row. Their \<open>y\<close> difference is exactly zero, the
  list of differences within the buffer is \<open>[0]\<close>, and \<open>any\<close> of it is false, so
  \<open>spCheck\<close> fails and the events are not merged. With the second detection one row
  further (\<open>next_row_pair\<close>) the two are merged into the id of the earlier event.
\<close>

theorem same_row_seam_pair_not_merged:
  "merge_edges 11 5 same_row_pair =
     Inr [\<lparr>e_id = ''h08v05_1'', e_y = 7, e_x = 4, e_days = 50\<rparr>,
          \<lparr>e_id = ''h09v05_1'', e_y = 7, e_x = 5, e_days = 52\<rparr>] \<and>
   spCheck [7 - 7] 5 = False \<and>
   merge_edges 11 5 next_row_pair =
     Inr [\<lparr>e_id = ''h08v05_1'', e_y = 7, e_x = 4, e_days = 50\<rparr>,
          \<lparr>e_id = ''h08v05_1'', e_y = 6, e_x = 5, e_days = 52\<rparr>]"
  by code_simp

section \<open>Proofs: classification returns\<close>

lemma live_coords_points:
  assumes "coords_wf p" "\<not> tombstoned p"
  shows "\<forall>c \<in> set (coords p). \<exists>q. c = Pt q"
  using assms by (auto simp: coords_wf_def tombstoned_def)

lemma points_hashable: "\<forall>c \<in> set cs. \<exists>q. c = Pt q \<Longrightarrow> \<forall>c \<in> set cs. hashable c"
  by auto

lemma list_all_update:
  assumes "\<forall>p \<in> set ps. P p" "P v"
  shows "\<forall>p \<in> set (ps[i := v]). P p"
  using assms set_update_subset_insert[of ps i v] by auto

lemma assign_burn_returns:
  assumes al: "aligned st" and gl: "grid_live st" and wf: "\<forall>p \<in> set (perimeters st). coords_wf p"
  shows "\<exists>st'. assign_burn st cands = Inr st' \<and> (\<forall>p \<in> set (perimeters st'). coords_wf p)"
proof (cases st cands rule: assign_burn_cases)
  case (create new)
  have "coords_wf \<lparr>event_id = next_event_id st, merge_id = None, coords = map Pt new\<rparr>"
    by (auto simp: coords_wf_def)
  then show ?thesis using wf by (auto simp: assign_burn_create[OF create])
next
  case (extend e0 new)
  let ?ps = "perimeters st"
  obtain p0 where "event_grid st (Pt p0) = Some e0"
    using partition_ids_in_grid[OF extend, of e0] by auto
  note i0 = grid_live_index[OF al gl this]
  note a0 = aligned_index[OF al i0(1,2)]
  let ?j0 = "nat (e0 - 1)"
  have j0: "?j0 < length ?ps" using i0(1,2) by linarith
  then have "coords_wf (?ps ! ?j0)" using wf by simp
  then have "\<forall>c \<in> set (coords (?ps ! ?j0)). \<exists>q. c = Pt q"
    using i0(3) by (rule live_coords_points)
  then have "coords_wf ((?ps ! ?j0)\<lparr>coords := coords (?ps ! ?j0) @ map Pt new\<rparr>)"
    by (auto simp: coords_wf_def)
  then have "\<forall>p \<in> set (?ps[?j0 := (?ps ! ?j0)\<lparr>coords := coords (?ps ! ?j0) @ map Pt new\<rparr>]). coords_wf p"
    using wf by (intro list_all_update) auto
  then show ?thesis using wf by (auto simp: assign_burn_extend[OF extend] a0)
next
  case (merge e1 e2 others new)
  let ?ps = "perimeters st"
  have d: "distinct (e1 # e2 # others)"
    using partition_pts_spec[OF merge] by simp
  obtain p1 where "event_grid st (Pt p1) = Some e1"
    using partition_ids_in_grid[OF merge, of e1] by auto
  note i1 = grid_live_index[OF al gl this]
  obtain p2 where "event_grid st (Pt p2) = Some e2"
    using partition_ids_in_grid[OF merge, of e2] by auto
  note i2 = grid_live_index[OF al gl this]
  note a1 = aligned_index[OF al i1(1,2)]
  note a2 = aligned_index[OF al i2(1,2)]
  let ?j1 = "nat (e1 - 1)"
  let ?j2 = "nat (e2 - 1)"
  let ?sv = "?ps ! ?j1"
  let ?ob = "?ps ! ?j2"
  have j: "?j1 < length ?ps" "?j2 < length ?ps" "?j1 \<noteq> ?j2" using i1(1,2) i2(1,2) d by auto
  have pob: "\<forall>c \<in> set (coords ?ob). \<exists>q. c = Pt q"
    using wf j(2) i2(3) by (intro live_coords_points) auto
  have psv: "\<forall>c \<in> set (coords ?sv). \<exists>q. c = Pt q"
    using wf j(1) i1(3) by (intro live_coords_points) auto
  have ha: "\<forall>k \<in> set (coords ?ob). hashable k"
    using pob by (rule points_hashable)
  have ne: "nat (py_pos (length ?ps) (e1 - 1)) \<noteq> nat (py_pos (length ?ps) (e2 - 1))"
    using j(3) by (simp add: a1 a2)
  note res = merge_perimeters_result[OF a2(1) a1(1) ne ha]
  have w1: "coords_wf (?sv\<lparr>coords := coords ?sv @ coords ?ob\<rparr>)"
    using pob psv by (auto simp: coords_wf_def)
  have w2: "coords_wf (?ob\<lparr>merge_id := Some e1,
              coords := [Str (''Merged with event '' @ show_int e1), Lst (coords ?ob)]\<rparr>)"
    by (simp add: coords_wf_def)
  have "\<forall>p \<in> set (?ps[?j1 := ?sv\<lparr>coords := coords ?sv @ coords ?ob\<rparr>,
              ?j2 := ?ob\<lparr>merge_id := Some e1,
                coords := [Str (''Merged with event '' @ show_int e1), Lst (coords ?ob)]\<rparr>]).
          coords_wf p"
    using wf w1 w2 by (intro list_all_update) auto
  then show ?thesis
    unfolding assign_burn_merge[OF merge] res by (simp add: a1 a2)
qed

lemma classifying_returns:
  assumes "classifying st"
  shows "(\<forall>p \<in> set (perimeters st). coords_wf p) \<and> (\<forall>cands. \<exists>st'. assign_burn st cands = Inr st')"
proof -
  have wf: "\<forall>p \<in> set (perimeters st). coords_wf p" using assms
  proof (induction rule: classifying.induct)
    case start
    show ?case by (simp add: fresh_state_def)
  next
    case (step st cands st')
    from assign_burn_returns[OF classifying_aligned[OF step(1)] classifying_grid_live[OF step(1)] step(3), of cands]
    show ?case using step(2) by auto
  qed
  then show ?thesis
    using assign_burn_returns[OF classifying_aligned[OF assms] classifying_grid_live[OF assms]]
    by blast
qed

lemma where_close_bounds:
  assumes "(yl, xl, v) \<in> set (where_close window burn tp)"
  shows "\<exists>plane \<in> set window. yl < length plane \<and> xl < length (plane ! yl)"
proof -
  from assms obtain plane row where "plane \<in> set window"
    "(yl, row) \<in> set (enumerate 0 plane)" "(xl, v) \<in> set (enumerate 0 row)"
    unfolding where_close_def by auto
  then show ?thesis by (auto simp: in_set_enumerate_eq)
qed

lemma lookup_all_returns:
  assumes "\<forall>i \<in> set idx. 0 \<le> i \<and> i < int (length cs)"
  shows "\<exists>r. lookup_all cs idx = Inr r"
  using assms
proof (induction idx)
  case Nil
  then show ?case by simp
next
  case (Cons i idx)
  then obtain r where "lookup_all cs idx = Inr r" by auto
  moreover have "py_index cs i = Inr (cs ! nat i)"
    using Cons.prems by (simp add: py_index_def py_pos_def)
  ultimately show ?case by simp
qed

lemma extract_window_cells:
  assumes "0 \<le> y" "y < ny" "0 \<le> x" "x < nx" "grid_shape arr ny nx"
  shows "extract_window arr (get_spatial_window sp y x (ny, nx)) =
           map (\<lambda>plane. map (\<lambda>i. map (\<lambda>j. plane ! i ! j)
                  [nat (max 0 (x - int sp))..<nat (min (min nx (x + int sp) + 1) nx)])
                [nat (max 0 (y - int sp))..<nat (min (min ny (y + int sp) + 1) ny)]) arr"
  unfolding extract_window_def window_bounds[OF assms(1-4)]
proof (rule map_cong[OF refl])
  fix plane assume "plane \<in> set arr"
  then have "length plane = nat ny" "\<forall>row \<in> set plane. length row = nat nx"
    using assms(5) by (auto simp: grid_shape_def)
  then show "map (\<lambda>row. py_slice row (max 0 (x - int sp)) (min nx (x + int sp) + 1))
               (py_slice plane (max 0 (y - int sp)) (min ny (y + int sp) + 1)) =
             map (\<lambda>i. map (\<lambda>j. plane ! i ! j)
                    [nat (max 0 (x - int sp))..<nat (min (min nx (x + int sp) + 1) nx)])
               [nat (max 0 (y - int sp))..<nat (min (min ny (y + int sp) + 1) ny)]"
    using assms(1-4) by (intro plane_window) auto
qed

lemma window_index_in_grid:
  fixes y n :: int
  assumes "0 \<le> y" "y < n"
    and "yl < nat (min (min n (y + int sp) + 1) n) - nat (max 0 (y - int sp))"
  shows "0 \<le> max 0 (y - int sp) + int yl \<and> max 0 (y - int sp) + int yl < n"
proof -
  have "min (min n (y + int sp) + 1) n \<le> n" by simp
  then have "nat (min (min n (y + int sp) + 1) n) \<le> nat n" by (rule nat_mono)
  then have "int yl + int (nat (max 0 (y - int sp))) < n" using assms by linarith
  moreover have "int (nat (max 0 (y - int sp))) = max 0 (y - int sp)" by simp
  ultimately show ?thesis by linarith
qed

lemma candidate_points_returns:
  assumes "wf_grid g" "0 \<le> y" "y < int (bg_ny g)" "0 \<le> x" "x < int (bg_nx g)"
  shows "\<exists>cands. candidate_points g
           (extract_window (bg_values g) (get_spatial_window sp y x (int (bg_ny g), int (bg_nx g))))
           (w_origin (get_spatial_window sp y x (int (bg_ny g), int (bg_nx g)))) burn tp = Inr cands"
proof -
  define ny where "ny = int (bg_ny g)"
  define nx where "nx = int (bg_nx g)"
  define w where "w = get_spatial_window sp y x (ny, nx)"
  define win where "win = extract_window (bg_values g) w"
  define locs where "locs = where_close win burn tp"
  define oy where "oy = max 0 (y - int sp)"
  define ox where "ox = max 0 (x - int sp)"
  have yx: "0 \<le> y" "y < ny" "0 \<le> x" "x < nx"
    using assms(2-5) by (simp_all add: ny_def nx_def)
  have sh: "grid_shape (bg_values g) ny nx" and ly: "int (length (bg_ys g)) = ny"
    and lx: "int (length (bg_xs g)) = nx"
    using assms(1) by (auto simp: wf_grid_def ny_def nx_def)
  have o: "w_origin w = (oy, ox)"
    unfolding w_def oy_def ox_def using yx by (simp add: window_bounds window_axis_origin)
  have b: "0 \<le> oy + int yl \<and> oy + int yl < ny \<and> 0 \<le> ox + int xl \<and> ox + int xl < nx"
    if "(yl, xl, v) \<in> set locs" for yl xl v
  proof -
    from where_close_bounds[OF that[unfolded locs_def]] obtain plane where
      p: "plane \<in> set win" "yl < length plane" "xl < length (plane ! yl)"
      by blast
    from p(1) obtain q where q: "plane = map (\<lambda>i. map (\<lambda>j. q ! i ! j)
                  [nat (max 0 (x - int sp))..<nat (min (min nx (x + int sp) + 1) nx)])
                [nat (max 0 (y - int sp))..<nat (min (min ny (y + int sp) + 1) ny)]"
      unfolding win_def w_def extract_window_cells[OF yx sh] by auto
    have 1: "yl < nat (min (min ny (y + int sp) + 1) ny) - nat (max 0 (y - int sp))"
      using p(2) unfolding q by simp
    have "length (plane ! yl) =
            nat (min (min nx (x + int sp) + 1) nx) - nat (max 0 (x - int sp))"
      unfolding q using 1 by simp
    then have 2: "xl < nat (min (min nx (x + int sp) + 1) nx) - nat (max 0 (x - int sp))"
      using p(3) by simp
    show ?thesis
      unfolding oy_def ox_def
      using window_index_in_grid[OF yx(1,2) 1] window_index_in_grid[OF yx(3,4) 2] by blast
  qed
  have "\<forall>i \<in> set (map (\<lambda>(yl, xl, v). fst (w_origin w) + int yl) locs).
          0 \<le> i \<and> i < int (length (bg_ys g))"
    unfolding o ly using b by fastforce
  then obtain ycs where
    ycs: "lookup_all (bg_ys g) (map (\<lambda>(yl, xl, v). fst (w_origin w) + int yl) locs) = Inr ycs"
    using lookup_all_returns by blast
  have "\<forall>i \<in> set (map (\<lambda>(yl, xl, v). snd (w_origin w) + int xl) locs).
          0 \<le> i \<and> i < int (length (bg_xs g))"
    unfolding o lx using b by fastforce
  then obtain xcs where
    xcs: "lookup_all (bg_xs g) (map (\<lambda>(yl, xl, v). snd (w_origin w) + int xl) locs) = Inr xcs"
    using lookup_all_returns by blast
  have "candidate_points g win (w_origin w) burn tp =
          Inr (zip ycs (zip xcs (map (\<lambda>(yl, xl, v). v) locs)))"
    unfolding candidate_points_def Let_def locs_def[symmetric] by (simp add: ycs xcs)
  then show ?thesis
    unfolding win_def w_def ny_def nx_def by blast
qed

lemma assign_burns_returns:
  assumes "classifying st"
    and "\<And>burn. \<exists>cands. candidate_points g window origin burn tp = Inr cands"
  shows "\<exists>st'. assign_burns tp g window origin burns st = Inr st' \<and> classifying st'"
  using assms(1)
proof (induction burns arbitrary: st)
  case Nil
  then show ?case by simp
next
  case (Cons burn burns)
  from assms(2) obtain cands where c: "candidate_points g window origin burn tp = Inr cands"
    by blast
  from classifying_returns[OF Cons.prems] obtain st1 where s1: "assign_burn st cands = Inr st1"
    by blast
  then have "classifying st1" using Cons.prems classifying.step by blast
  from Cons.IH[OF this] show ?case by (simp add: c s1)
qed

lemma process_cell_returns:
  assumes "wf_grid g" "0 \<le> fst pair" "fst pair < int (bg_ny g)"
    "0 \<le> snd pair" "snd pair < int (bg_nx g)" "classifying st"
  shows "\<exists>st'. process_cell sp tp g pair st = Inr st' \<and> classifying st'"
proof -
  define w where "w = get_spatial_window sp (fst pair) (snd pair) (int (bg_ny g), int (bg_nx g))"
  have sh: "grid_shape (bg_values g) (int (bg_ny g)) (int (bg_nx g))"
    using assms(1) by (simp add: wf_grid_def)
  have c: "center_series (extract_window (bg_values g) w) (fst (w_center w)) (snd (w_center w)) =
             Inr (map (\<lambda>plane. plane ! nat (fst pair) ! nat (snd pair)) (bg_values g))"
    unfolding w_def using center_series_window[OF assms(2-5) sh, of sp]
    by (simp add: window_bounds[OF assms(2-5)])
  have "\<exists>cands. candidate_points g (extract_window (bg_values g) w) (w_origin w) burn tp = Inr cands"
    for burn
    unfolding w_def by (rule candidate_points_returns[OF assms(1-5)])
  from assign_burns_returns[OF assms(6) this]
  show ?thesis
    unfolding process_cell_def Let_def w_def[symmetric] c by simp
qed

lemma process_cells_returns:
  assumes "wf_grid g" "classifying st"
    and "\<forall>pair \<in> set pairs. 0 \<le> fst pair \<and> fst pair < int (bg_ny g) \<and>
            0 \<le> snd pair \<and> snd pair < int (bg_nx g)"
  shows "\<exists>st'. process_cells sp tp g pairs st = Inr st' \<and> classifying st'"
  using assms(2,3)
proof (induction pairs arbitrary: st)
  case Nil
  then show ?case by simp
next
  case (Cons pair pairs)
  have "\<exists>st1. process_cell sp tp g pair st = Inr st1 \<and> classifying st1"
    using Cons.prems by (intro process_cell_returns[OF assms(1)]) auto
  then obtain st1 where s1: "process_cell sp tp g pair st = Inr st1" "classifying st1"
    by blast
  from Cons.IH[OF s1(2)] Cons.prems(2) show ?case by (simp add: s1(1))
qed

lemma get_availables_in_range:
  assumes "wf_grid g" "bg_values g \<noteq> []"
  shows "\<exists>pairs. get_availables g = Inr pairs \<and>
           (\<forall>pair \<in> set pairs. 0 \<le> fst pair \<and> fst pair < int (bg_ny g) \<and>
              0 \<le> snd pair \<and> snd pair < int (bg_nx g))"
proof -
  have sh: "grid_shape (bg_values g) (int (bg_ny g)) (int (bg_nx g))"
    using assms(1) by (simp add: wf_grid_def)
  from time_max_nth[OF sh assms(2)] obtain mx where
    mx: "time_max (bg_values g) = Inr mx" "plane_shape mx (bg_ny g) (bg_nx g)"
    by blast
  have "\<forall>pair \<in> set (where_positive mx). 0 \<le> fst pair \<and> fst pair < int (bg_ny g) \<and>
              0 \<le> snd pair \<and> snd pair < int (bg_nx g)"
    using mx(2) unfolding where_positive_nth plane_shape_def by auto
  then show ?thesis by (simp add: get_availables_def mx(1))
qed

text \<open>
  Classification returns: on every well-formed grid with at least one time step,
  \<open>get_event_perimeters\<close> started on a fresh \<open>EventGrid\<close> raises no exception, and the
  state it returns is one of the states of classification, so the invariants above hold
  for it.
\<close>

theorem classification_returns:
  assumes "wf_grid g" "bg_values g \<noteq> []"
  shows "\<exists>st. get_event_perimeters sp tp g (Map.empty, 1) = Inr st \<and> classifying st"
proof -
  from get_availables_in_range[OF assms] obtain pairs where
    p: "get_availables g = Inr pairs"
    "\<forall>pair \<in> set pairs. 0 \<le> fst pair \<and> fst pair < int (bg_ny g) \<and>
              0 \<le> snd pair \<and> snd pair < int (bg_nx g)"
    by blast
  from process_cells_returns[OF assms(1) classifying.start p(2), of sp tp]
  show ?thesis
    by (simp add: get_event_perimeters_def p(1) fresh_state_def)
qed

text \<open>
  The merge step, for the obsolete points: when the candidate points of a detection
  fall under two or more ids, the first two are distinct, both address live
  perimeters, and the step returns the state in which every point of the second
  perimeter maps to the first id, these points are appended to the first perimeter, and
  the second perimeter carries the merge id and the notice. Nothing else changes: the
  new candidate points are not added.
\<close>

theorem merge_step_moves_obsolete_points:
  assumes "classifying st"
    and "partition_pts (event_grid st) cands [] [] = (e1 # e2 # others, new)"
  shows "let sv = perimeters st ! nat (e1 - 1); ob = perimeters st ! nat (e2 - 1) in
         e1 \<noteq> e2 \<and> event_id sv = e1 \<and> event_id ob = e2 \<and>
         \<not> tombstoned sv \<and> \<not> tombstoned ob \<and>
         assign_burn st cands =
           Inr (st\<lparr>event_grid := (\<lambda>k. if k \<in> set (coords ob) then Some e1 else event_grid st k),
                   perimeters := (perimeters st)
                     [nat (e1 - 1) := sv\<lparr>coords := coords sv @ coords ob\<rparr>,
                      nat (e2 - 1) := ob\<lparr>merge_id := Some e1,
                        coords := [Str (''Merged with event '' @ show_int e1), Lst (coords ob)]\<rparr>]\<rparr>)"
proof -
  note al = classifying_aligned[OF assms(1)]
  note gl = classifying_grid_live[OF assms(1)]
  have wf: "\<forall>p \<in> set (perimeters st). coords_wf p"
    using classifying_returns[OF assms(1)] by blast
  let ?ps = "perimeters st"
  have d: "distinct (e1 # e2 # others)"
    using partition_pts_spec[OF assms(2)] by simp
  obtain p1 where "event_grid st (Pt p1) = Some e1"
    using partition_ids_in_grid[OF assms(2), of e1] by auto
  note i1 = grid_live_index[OF al gl this]
  obtain p2 where "event_grid st (Pt p2) = Some e2"
    using partition_ids_in_grid[OF assms(2), of e2] by auto
  note i2 = grid_live_index[OF al gl this]
  note a1 = aligned_index[OF al i1(1,2)]
  note a2 = aligned_index[OF al i2(1,2)]
  let ?sv = "?ps ! nat (e1 - 1)"
  let ?ob = "?ps ! nat (e2 - 1)"
  have j: "nat (e1 - 1) < length ?ps" "nat (e2 - 1) < length ?ps" "nat (e1 - 1) \<noteq> nat (e2 - 1)"
    using i1(1,2) i2(1,2) d by auto
  have "\<forall>c \<in> set (coords ?ob). \<exists>q. c = Pt q"
    using wf j(2) i2(3) by (intro live_coords_points) auto
  then have ha: "\<forall>k \<in> set (coords ?ob). hashable k"
    by (rule points_hashable)
  have ne: "nat (py_pos (length ?ps) (e1 - 1)) \<noteq> nat (py_pos (length ?ps) (e2 - 1))"
    using j(3) by (simp add: a1 a2)
  note res = merge_perimeters_result[OF a2(1) a1(1) ne ha]
  have "assign_burn st cands =
           Inr (st\<lparr>event_grid := (\<lambda>k. if k \<in> set (coords ?ob) then Some e1 else event_grid st k),
                   perimeters := ?ps
                     [nat (e1 - 1) := ?sv\<lparr>coords := coords ?sv @ coords ?ob\<rparr>,
                      nat (e2 - 1) := ?ob\<lparr>merge_id := Some e1,
                        coords := [Str (''Merged with event '' @ show_int e1), Lst (coords ?ob)]\<rparr>]\<rparr>)"
    unfolding assign_burn_merge[OF assms(2)] res by (simp add: a1 a2)
  moreover have "e1 \<noteq> e2" using d by simp
  ultimately show ?thesis
    unfolding Let_def using a1(2) a2(2) i1(3) i2(3) by blast
qed

lemma two_events_classifying: "classifying two_events"
proof -
  have 1: "assign_burn fresh_state [(3, 1, 11)] =
             Inr \<lparr>event_grid = [Pt (3, 1, 11) \<mapsto> 1], next_event_id = 2,
                  perimeters = [\<lparr>event_id = 1, merge_id = None, coords = [Pt (3, 1, 11)]\<rparr>]\<rparr>"
    by (subst assign_burn_create[of _ _ "[(3, 1, 11)]"])
       (auto simp: fresh_state_def fun_eq_iff)
  have 2: "assign_burn \<lparr>event_grid = [Pt (3, 1, 11) \<mapsto> 1], next_event_id = 2,
                  perimeters = [\<lparr>event_id = 1, merge_id = None, coords = [Pt (3, 1, 11)]\<rparr>]\<rparr>
             [(3, 4, 20)] = Inr two_events"
    by (subst assign_burn_create[of _ _ "[(3, 4, 20)]"])
       (auto simp: two_events_def fun_eq_iff)
  show ?thesis using classifying.start 1 2 classifying.step by blast
qed

theorem merge_step_moves_obsolete_points_witness:
  "assign_burn two_events [(3, 1, 11), (3, 4, 20), (2, 2, 15)] =
     Inr (two_events\<lparr>event_grid := (\<lambda>k. if k \<in> set [Pt (3, 4, 20)] then Some 1
                                          else event_grid two_events k),
            perimeters :=
              [\<lparr>event_id = 1, merge_id = None, coords = [Pt (3, 1, 11), Pt (3, 4, 20)]\<rparr>,
               \<lparr>event_id = 2, merge_id = Some 1,
                 coords = [Str ''Merged with event 1'', Lst [Pt (3, 4, 20)]]\<rparr>]\<rparr>)"
proof -
  have p: "partition_pts (event_grid two_events) [(3, 1, 11), (3, 4, 20), (2, 2, 15)] [] [] =
           (1 # 2 # [], [(2, 2, 15)])"
    by (simp add: two_events_def)
  have s: "show_int 1 = ''1''"
    by (simp add: show_int_def show_nat.simps)
  from merge_step_moves_obsolete_points[OF two_events_classifying p]
  show ?thesis
    by (simp add: Let_def s) (simp add: two_events_def)
qed

theorem classification_returns_witness:
  "\<exists>st. get_event_perimeters 1 1 merge_tile (Map.empty, 1) = Inr st \<and> classifying st"
proof -
  have "wf_grid merge_tile" "bg_values merge_tile \<noteq> []"
    by (simp_all add: wf_grid_def grid_shape_def merge_tile_def)
  then show ?thesis by (rule classification_returns)
qed

end
